theory Spec2Isabelle
  imports Complex_Main "HOL-Library.Sublist"
begin

section \<open>Data model of \<open>td3_pytorch/agent.py\<close>\<close>

text \<open>
  Vectors (numpy arrays, one row of a torch tensor) are lists of reals; Python floats and
  float32 tensors are read as real numbers. A transition is the tuple
  \<open>(state, action, reward, next_state, done)\<close> that \<open>ReplayBuffer.add\<close> appends.
\<close>

type_synonym vec = "real list"

type_synonym transition = "vec \<times> vec \<times> real \<times> vec \<times> bool"

text \<open>Every raise the model follows, one constructor for each raise site.\<close>

datatype error =
    MaxlenNegative
  | SampleLargerOrNegative
  | UnpackExpectedFive
  | ShapeMismatch
  | ScaleNegative
  | ZeroDivisionError

subsection \<open>ReplayBuffer (lines 24-37)\<close>

text \<open>
  \<open>self.buffer = deque(maxlen=max_size)\<close>: the deque is its items, oldest first, and its
  \<open>maxlen\<close>. A negative \<open>maxlen\<close> raises ValueError in the constructor.
\<close>

record ReplayBuffer =
  buffer :: "transition list"
  maxlen :: nat

definition ReplayBuffer_init :: "int \<Rightarrow> error + ReplayBuffer" where
  "ReplayBuffer_init max_size =
     (if max_size < 0 then Inl MaxlenNegative
      else Inr \<lparr>buffer = [], maxlen = nat max_size\<rparr>)"

text \<open>
  \<open>deque.append\<close> on a bounded deque puts the item at the right end and, when the deque is
  then longer than \<open>maxlen\<close>, pops the left end.
\<close>

definition add :: "ReplayBuffer \<Rightarrow> vec \<Rightarrow> vec \<Rightarrow> real \<Rightarrow> vec \<Rightarrow> bool \<Rightarrow> ReplayBuffer" where
  "add rb state action reward next_state done =
     (let xs = buffer rb @ [(state, action, reward, next_state, done)]
      in rb\<lparr>buffer := (if maxlen rb < length xs then tl xs else xs)\<rparr>)"

definition size_rb :: "ReplayBuffer \<Rightarrow> int" where
  "size_rb rb = int (length (buffer rb))"

text \<open>A sequence of \<open>add\<close> calls, one for each transition of the list, in order.\<close>

fun add_all :: "ReplayBuffer \<Rightarrow> transition list \<Rightarrow> ReplayBuffer" where
  "add_all rb [] = rb"
| "add_all rb ((s, a, r, s', d) # ts) = add_all (add rb s a r s' d) ts"

text \<open>
  \<open>random.sample(population, k)\<close> raises ValueError unless \<open>0 \<le> k \<le> len(population)\<close>.
  Otherwise it selects without replacement, as CPython does from a pool: for each of the
  \<open>k\<close> items it asks the generator for \<open>j = randbelow(m)\<close>, \<open>m\<close> being the number of items
  still in the pool, takes \<open>pool[j]\<close> and moves the last item of the pool into the vacancy.
  (For a large population CPython finds the positions by rejection instead of keeping a
  pool; the selections and their probabilities are the same.) The generator is a
  parameter of the model: the list gives the numbers it returns, one for each call, and
  a number is reduced to the bound of its call.
\<close>

fun pool_select :: "nat list \<Rightarrow> 'a list \<Rightarrow> nat \<Rightarrow> 'a list" where
  "pool_select rs pool 0 = []"
| "pool_select rs pool (Suc k) =
     (let j = (case rs of [] \<Rightarrow> 0 | r # _ \<Rightarrow> r) mod length pool
      in pool ! j # pool_select (tl rs) (butlast (pool[j := last pool])) k)"

definition random_sample :: "'a list \<Rightarrow> int \<Rightarrow> nat list \<Rightarrow> error + 'a list" where
  "random_sample population k rs =
     (if \<not> (0 \<le> k \<and> k \<le> int (length population)) then Inl SampleLargerOrNegative
      else Inr (pool_select rs population (nat k)))"

text \<open>
  The positions of a population of \<open>n\<close> items that a sample of \<open>k\<close> takes, in the order
  of the sample.
\<close>

definition drawn_positions :: "nat \<Rightarrow> int \<Rightarrow> nat list \<Rightarrow> nat list" where
  "drawn_positions n k rs = pool_select rs [0..<n] (nat k)"

text \<open>
  The outcomes of the generator for a sample of \<open>k\<close> from \<open>n\<close> items (call \<open>i\<close> returns a
  number below \<open>n - i\<close>, each with the same probability), and the ordered selections of
  \<open>k\<close> distinct positions.
\<close>

definition valid_source :: "nat \<Rightarrow> int \<Rightarrow> nat list \<Rightarrow> bool" where
  "valid_source n k rs =
     (int (length rs) = k \<and> list_all (\<lambda>i. rs ! i < n - i) [0..<length rs])"

definition valid_draw :: "nat \<Rightarrow> int \<Rightarrow> nat list \<Rightarrow> bool" where
  "valid_draw n k idxs =
     (int (length idxs) = k \<and> distinct idxs \<and> list_all (\<lambda>i. i < n) idxs)"

text \<open>
  \<open>states, actions, rewards, next_states, dones = zip(*batch)\<close>: with an empty batch
  \<open>zip()\<close> yields nothing and the unpacking into five names raises ValueError. The five
  \<open>np.array\<close> calls keep the rows as they are.
\<close>

type_synonym batch = "vec list \<times> vec list \<times> real list \<times> vec list \<times> bool list"

definition sample :: "ReplayBuffer \<Rightarrow> int \<Rightarrow> nat list \<Rightarrow> error + batch" where
  "sample rb batch_size rs =
     (case random_sample (buffer rb) batch_size rs of
        Inl e \<Rightarrow> Inl e
      | Inr batch \<Rightarrow>
          if batch = [] then Inl UnpackExpectedFive
          else Inr (map (\<lambda>(s, a, r, s', d). s) batch,
                    map (\<lambda>(s, a, r, s', d). a) batch,
                    map (\<lambda>(s, a, r, s', d). r) batch,
                    map (\<lambda>(s, a, r, s', d). s') batch,
                    map (\<lambda>(s, a, r, s', d). d) batch))"

subsection \<open>Array operations used by the agent\<close>

text \<open>
  \<open>x.clamp(lo, hi)\<close> of torch and \<open>x.clip(lo, hi)\<close> of numpy, on one component: the lower
  bound is applied first, the upper bound last.
\<close>

definition clip :: "real \<Rightarrow> real \<Rightarrow> real \<Rightarrow> real" where
  "clip lo hi x = min (max x lo) hi"

text \<open>
  \<open>a + b\<close> on one-dimensional arrays (one row of a batch): equal lengths add
  component-wise, a length-one operand is broadcast, any other pair of lengths raises.
\<close>

definition broadcast_add :: "vec \<Rightarrow> vec \<Rightarrow> error + vec" where
  "broadcast_add a b =
     (if length a = length b then Inr (map2 (+) a b)
      else if length a = 1 then Inr (map (\<lambda>y. hd a + y) b)
      else if length b = 1 then Inr (map (\<lambda>x. x + hd b) a)
      else Inl ShapeMismatch)"

text \<open>
  A draw from \<open>N(0, scale)\<close> is \<open>scale\<close> times a standard normal draw; \<open>z j\<close> is the
  standard draw of component \<open>j\<close>. A negative scale raises, in numpy and in torch.
\<close>

definition normal_draws :: "(nat \<Rightarrow> real) \<Rightarrow> real \<Rightarrow> nat \<Rightarrow> error + vec" where
  "normal_draws z scale n =
     (if scale < 0 then Inl ScaleNegative else Inr (map (\<lambda>j. scale * z j) [0..<n]))"

text \<open>Running a list of fallible row computations: the first raise wins.\<close>

fun all_rows :: "(error + 'a) list \<Rightarrow> error + 'a list" where
  "all_rows [] = Inr []"
| "all_rows (x # xs) =
     (case x of
        Inl e \<Rightarrow> Inl e
      | Inr v \<Rightarrow> (case all_rows xs of Inl e \<Rightarrow> Inl e | Inr vs \<Rightarrow> Inr (v # vs)))"

definition mean :: "real list \<Rightarrow> real" where
  "mean xs = sum_list xs / real (length xs)"

definition mse_loss :: "real list \<Rightarrow> real list \<Rightarrow> real" where
  "mse_loss xs ys = mean (map2 (\<lambda>x y. (x - y)\<^sup>2) xs ys)"

subsection \<open>Agent: configuration, networks, state (lines 40-116)\<close>

record hyperparameters =
  action_dim :: nat
  action_low :: real
  action_high :: real
  replay_buffer_size :: int
  batch_size :: int
  discount :: real
  tau :: real
  policy_noise :: real
  noise_clip :: real
  policy_freq :: int
  max_timestep :: int

text \<open>
  The parameters of a network are its parameter tensors in the order of \<open>parameters()\<close>,
  each flattened.

  \<open>TD3_Actor\<close> and \<open>TD3_Critic\<close> are imported from the module \<open>td3\<close> and the optimizer is
  \<open>torch.optim.Adam\<close>; none of them is in \<open>agent.py\<close>. They are parameters of the model:
  the forward passes on one row, the critic's \<open>Q1\<close> head, and one optimizer step
  (\<open>zero_grad(); loss.backward(); step()\<close>), which takes the optimizer's state, the loss
  as a function of the parameters it optimizes and their current value.
\<close>

type_synonym params = "real list list"

record 'o networks =
  actor_forward :: "params \<Rightarrow> vec \<Rightarrow> vec"
  critic_forward :: "params \<Rightarrow> vec \<Rightarrow> vec \<Rightarrow> real \<times> real"
  critic_Q1 :: "params \<Rightarrow> vec \<Rightarrow> vec \<Rightarrow> real"
  optimizer_step :: "'o \<Rightarrow> (params \<Rightarrow> real) \<Rightarrow> params \<Rightarrow> 'o \<times> params"

record 'o Agent =
  hyper :: hyperparameters
  total_it :: int
  actor :: params
  actor_target :: params
  actor_optimizer :: 'o
  critic :: params
  critic_target :: params
  critic_optimizer :: 'o
  replay_buffer :: ReplayBuffer

definition select_action :: "'o networks \<Rightarrow> 'o Agent \<Rightarrow> vec \<Rightarrow> vec" where
  "select_action N ag st = actor_forward N (actor ag) st"

text \<open>
  Modelled from the spec: the forward pass of the class \<open>TD3_Actor\<close> of the module \<open>td3\<close>,
  which is not among the sources. Section 4.2 of the specification: the policy
  approximator maps a state vector to an action vector, and its output is post-processed
  by clamping every component to the closed interval \<open>[action_low, action_high]\<close>. The
  layers before the clamp are the parameter \<open>net\<close>.
\<close>

definition TD3_Actor :: "(params \<Rightarrow> vec \<Rightarrow> vec) \<Rightarrow> real \<Rightarrow> real \<Rightarrow> params \<Rightarrow> vec \<Rightarrow> vec" where
  "TD3_Actor net low high \<theta> s = map (clip low high) (net \<theta> s)"

text \<open>
  Lines 105-106 construct the actor and its target as \<open>TD3_Actor\<close> with the configured
  \<open>action_low\<close> and \<open>action_high\<close>: the networks of such an agent.
\<close>

definition with_TD3_Actor ::
  "'o networks \<Rightarrow> (params \<Rightarrow> vec \<Rightarrow> vec) \<Rightarrow> hyperparameters \<Rightarrow> 'o networks" where
  "with_TD3_Actor N net h = N\<lparr>actor_forward := TD3_Actor net (action_low h) (action_high h)\<rparr>"

subsection \<open>Agent.train (lines 144-187)\<close>

text \<open>
  Lines 154-155 on one row of the batch. The noise tensor has the shape of the stored
  actions; \<open>z\<close> gives the standard normal draw of each component.
\<close>

definition smoothed_next_action ::
  "hyperparameters \<Rightarrow> (vec \<Rightarrow> vec) \<Rightarrow> (nat \<Rightarrow> real) \<Rightarrow> vec \<Rightarrow> vec \<Rightarrow> error + vec" where
  "smoothed_next_action h actor_tgt z action_row next_state_row =
     (case normal_draws z (policy_noise h) (length action_row) of
        Inl e \<Rightarrow> Inl e
      | Inr raw \<Rightarrow>
          let noise = map (clip (- noise_clip h) (noise_clip h)) raw
          in (case broadcast_add (actor_tgt next_state_row) noise of
                Inl e \<Rightarrow> Inl e
              | Inr v \<Rightarrow> Inr (map (clip (- action_high h) (action_high h)) v)))"

definition next_actions ::
  "hyperparameters \<Rightarrow> (vec \<Rightarrow> vec) \<Rightarrow> (nat \<Rightarrow> nat \<Rightarrow> real) \<Rightarrow> vec list \<Rightarrow> vec list
     \<Rightarrow> error + vec list" where
  "next_actions h actor_tgt z actions next_states =
     all_rows (map (\<lambda>(i, a, s'). smoothed_next_action h actor_tgt (z i) a s')
                   (zip [0..<length actions] (zip actions next_states)))"

text \<open>Lines 157-159; \<open>done\<close> is a float tensor, 1 for True and 0 for False.\<close>

definition compute_target_Q ::
  "real \<Rightarrow> (vec \<Rightarrow> vec \<Rightarrow> real \<times> real) \<Rightarrow> vec list \<Rightarrow> vec list \<Rightarrow> real list \<Rightarrow> bool list
     \<Rightarrow> real list" where
  "compute_target_Q disc critic_tgt next_state next_action reward done =
     map2 (\<lambda>(r, d) (target_Q1, target_Q2). r + (1 - of_bool d) * disc * min target_Q1 target_Q2)
          (zip reward done) (map2 critic_tgt next_state next_action)"

text \<open>
  Lines 182 and 185 on one parameter tensor: the blend is computed with broadcasting and
  \<open>copy_\<close> writes it into the target tensor, which keeps its shape.
\<close>

definition lerp_copy :: "real \<Rightarrow> vec \<Rightarrow> vec \<Rightarrow> error + vec" where
  "lerp_copy t param target_param =
     (case broadcast_add (map (\<lambda>x. t * x) param) (map (\<lambda>y. (1 - t) * y) target_param) of
        Inl e \<Rightarrow> Inl e
      | Inr v \<Rightarrow> if length v = length target_param then Inr v else Inl ShapeMismatch)"

text \<open>
  The loops of lines 181-185 run over \<open>zip(live.parameters(), target.parameters())\<close>:
  they stop with the shorter list, and a target tensor with no partner is left as it is.
\<close>

fun soft_update :: "real \<Rightarrow> params \<Rightarrow> params \<Rightarrow> error + params" where
  "soft_update t (p # ps) (tp # tps) =
     (case lerp_copy t p tp of
        Inl e \<Rightarrow> Inl e
      | Inr tp' \<Rightarrow> (case soft_update t ps tps of Inl e \<Rightarrow> Inl e | Inr tps' \<Rightarrow> Inr (tp' # tps')))"
| "soft_update t [] tps = Inr tps"
| "soft_update t ps [] = Inr []"

text \<open>What one call of \<open>train\<close> did, in order; the critic step carries its target.\<close>

datatype event = CriticStep "real list" | ActorStep | SyncCriticTarget | SyncActorTarget

definition critic_loss ::
  "'o networks \<Rightarrow> vec list \<Rightarrow> vec list \<Rightarrow> real list \<Rightarrow> params \<Rightarrow> real" where
  "critic_loss N state action target_Q \<theta> =
     mse_loss (map2 (\<lambda>s a. fst (critic_forward N \<theta> s a)) state action) target_Q
     + mse_loss (map2 (\<lambda>s a. snd (critic_forward N \<theta> s a)) state action) target_Q"

definition actor_loss :: "'o networks \<Rightarrow> params \<Rightarrow> vec list \<Rightarrow> params \<Rightarrow> real" where
  "actor_loss N \<theta> state \<phi> = - mean (map (\<lambda>s. critic_Q1 N \<theta> s (actor_forward N \<phi> s)) state)"

text \<open>
  \<open>idxs\<close> lists the numbers the generator returns to \<open>random.sample\<close> and \<open>z i j\<close> is
  the standard normal draw for component \<open>j\<close> of row \<open>i\<close> of the smoothing noise.
\<close>

definition train ::
  "'o networks \<Rightarrow> nat list \<Rightarrow> (nat \<Rightarrow> nat \<Rightarrow> real) \<Rightarrow> 'o Agent \<Rightarrow> error + ('o Agent \<times> event list)" where
  "train N idxs z ag =
     (let h = hyper ag in
      case sample (replay_buffer ag) (batch_size h) idxs of
        Inl e \<Rightarrow> Inl e
      | Inr (states, actions, rewards, next_states, dones) \<Rightarrow>
          (case next_actions h (actor_forward N (actor_target ag)) z actions next_states of
             Inl e \<Rightarrow> Inl e
           | Inr next_action \<Rightarrow>
               let target_Q = compute_target_Q (discount h) (critic_forward N (critic_target ag))
                                next_states next_action rewards dones;
                   (copt, crit) = optimizer_step N (critic_optimizer ag)
                                    (critic_loss N states actions target_Q) (critic ag);
                   ag1 = ag\<lparr>critic := crit, critic_optimizer := copt\<rparr>
               in if policy_freq h = 0 then Inl ZeroDivisionError
                  else if total_it ag mod policy_freq h = 0 then
                    (let (aopt, act) = optimizer_step N (actor_optimizer ag)
                                         (actor_loss N crit states) (actor ag)
                     in case soft_update (tau h) crit (critic_target ag) of
                          Inl e \<Rightarrow> Inl e
                        | Inr ctgt \<Rightarrow>
                            (case soft_update (tau h) act (actor_target ag) of
                               Inl e \<Rightarrow> Inl e
                             | Inr atgt \<Rightarrow>
                                 Inr (ag1\<lparr>actor := act, actor_optimizer := aopt,
                                          critic_target := ctgt, actor_target := atgt,
                                          total_it := total_it ag + 1\<rparr>,
                                      [CriticStep target_Q, ActorStep,
                                       SyncCriticTarget, SyncActorTarget])))
                  else Inr (ag1\<lparr>total_it := total_it ag + 1\<rparr>, [CriticStep target_Q])))"

text \<open>
  A run of Learning Steps: one call of \<open>train\<close> for each element of the list, which gives
  the call's random draws and the replay buffer the episode loop has built by then. The
  result lists the events of each call.
\<close>

fun train_run ::
  "'o networks \<Rightarrow> (ReplayBuffer \<times> nat list \<times> (nat \<Rightarrow> nat \<Rightarrow> real)) list \<Rightarrow> 'o Agent
     \<Rightarrow> error + ('o Agent \<times> event list list)" where
  "train_run N [] ag = Inr (ag, [])"
| "train_run N ((rb, idxs, z) # calls) ag =
     (case train N idxs z (ag\<lparr>replay_buffer := rb\<rparr>) of
        Inl e \<Rightarrow> Inl e
      | Inr (ag', ev) \<Rightarrow>
          (case train_run N calls ag' of
             Inl e \<Rightarrow> Inl e
           | Inr (ag'', evs) \<Rightarrow> Inr (ag'', ev # evs)))"

text \<open>The number of calls of a run in which the policy network was updated.\<close>

definition policy_updates :: "event list list \<Rightarrow> nat" where
  "policy_updates evs = length (filter (\<lambda>ev. ActorStep \<in> set ev) evs)"

text \<open>Repeated synchronisation against a live network that is held fixed.\<close>

fun soft_updates :: "nat \<Rightarrow> real \<Rightarrow> params \<Rightarrow> params \<Rightarrow> error + params" where
  "soft_updates 0 t live tgt = Inr tgt"
| "soft_updates (Suc n) t live tgt =
     (case soft_update t live tgt of Inl e \<Rightarrow> Inl e | Inr tgt' \<Rightarrow> soft_updates n t live tgt')"

subsection \<open>Agent.run: the step loop of an episode (lines 196-222)\<close>

text \<open>
  The random draws of one iteration of the loop: the standard normal draws behind the
  exploration noise, and the two draws of a call of \<open>train\<close>.
\<close>

record draws =
  explore_z :: "nat \<Rightarrow> real"
  sample_idxs :: "nat list"
  smooth_z :: "nat \<Rightarrow> nat \<Rightarrow> real"

text \<open>
  The local variables of the loop, the agent and the environment. The environment is
  gymnasium's: its \<open>step\<close> is a parameter of the model, a function from the environment's
  state and the action to the new state of the environment and
  \<open>(next_state, reward, terminated, truncated)\<close>.
\<close>

record ('e, 'o) loop_state =
  env :: 'e
  state :: vec
  terminated :: bool
  truncated :: bool
  episode_reward :: real
  step_count :: int
  agent :: "'o Agent"

type_synonym 'e env_step = "'e \<Rightarrow> vec \<Rightarrow> 'e \<times> vec \<times> real \<times> bool \<times> bool"

text \<open>Lines 208-209: exploration noise on the selected action.\<close>

definition explore :: "hyperparameters \<Rightarrow> (nat \<Rightarrow> real) \<Rightarrow> vec \<Rightarrow> error + vec" where
  "explore h z action =
     (case normal_draws z (action_high h * policy_noise h) (action_dim h) of
        Inl e \<Rightarrow> Inl e
      | Inr noise \<Rightarrow>
          (case broadcast_add action noise of
             Inl e \<Rightarrow> Inl e
           | Inr v \<Rightarrow> Inr (map (clip (- action_high h) (action_high h)) v)))"

text \<open>Lines 206-209: the action of a step, in training and in evaluation mode.\<close>

definition choose_action ::
  "'o networks \<Rightarrow> bool \<Rightarrow> (nat \<Rightarrow> real) \<Rightarrow> 'o Agent \<Rightarrow> vec \<Rightarrow> error + vec" where
  "choose_action N is_training z ag st =
     (let action = select_action N ag st
      in if is_training then explore (hyper ag) z action else Inr action)"

text \<open>
  Lines 216-218, after the transition has been stored. \<open>and\<close> evaluates the modulo only
  when the size test holds, and the modulo raises on \<open>policy_freq = 0\<close>.
\<close>

definition learn_if_due :: "'o networks \<Rightarrow> draws \<Rightarrow> int \<Rightarrow> 'o Agent \<Rightarrow> error + 'o Agent" where
  "learn_if_due N dr step_cnt ag =
     (if size_rb (replay_buffer ag) > batch_size (hyper ag) then
        (if policy_freq (hyper ag) = 0 then Inl ZeroDivisionError
         else if step_cnt mod policy_freq (hyper ag) = 0 then
           (case train N (sample_idxs dr) (smooth_z dr) ag of
              Inl e \<Rightarrow> Inl e
            | Inr (ag', ev) \<Rightarrow> Inr ag')
         else Inr ag)
      else Inr ag)"

text \<open>Lines 206-222: one iteration of the \<open>while\<close> loop.\<close>

definition loop_body ::
  "'o networks \<Rightarrow> 'e env_step \<Rightarrow> bool \<Rightarrow> draws \<Rightarrow> ('e, 'o) loop_state
     \<Rightarrow> error + ('e, 'o) loop_state" where
  "loop_body N env_step is_training dr ls =
     (case choose_action N is_training (explore_z dr) (agent ls) (state ls) of
        Inl e \<Rightarrow> Inl e
      | Inr action \<Rightarrow>
          (case env_step (env ls) action of
             (env', next_state, reward, env_terminated, env_truncated) \<Rightarrow>
               let term = (step_count ls = max_timestep (hyper (agent ls)) - 1 \<or> env_terminated)
               in (case (if is_training
                         then learn_if_due N dr (step_count ls)
                                ((agent ls)\<lparr>replay_buffer :=
                                    add (replay_buffer (agent ls)) (state ls) action reward
                                      next_state term\<rparr>)
                         else Inr (agent ls)) of
                     Inl e \<Rightarrow> Inl e
                   | Inr ag' \<Rightarrow>
                       Inr (ls\<lparr>env := env', state := next_state, terminated := term,
                               truncated := env_truncated,
                               episode_reward := episode_reward ls + reward,
                               step_count := step_count ls + 1, agent := ag'\<rparr>))))"

text \<open>
  Line 205: the \<open>while\<close> loop. \<open>rnd\<close> gives the draws of each iteration, by its step
  count. The loop need not end: the result is \<open>None\<close> when it runs forever.
\<close>

partial_function (option) episode_loop ::
  "'o networks \<Rightarrow> 'e env_step \<Rightarrow> bool \<Rightarrow> (int \<Rightarrow> draws) \<Rightarrow> ('e, 'o) loop_state
     \<Rightarrow> (error + ('e, 'o) loop_state) option" where
  "episode_loop N env_step is_training rnd ls =
     (if \<not> terminated ls \<and> \<not> truncated ls
         \<and> \<not> step_count ls = max_timestep (hyper (agent ls))
      then (case loop_body N env_step is_training (rnd (step_count ls)) ls of
              Inl e \<Rightarrow> Some (Inl e)
            | Inr ls' \<Rightarrow> episode_loop N env_step is_training rnd ls')
      else Some (Inr ls))"

declare episode_loop.simps [code]

text \<open>Lines 196-200: the loop state at the start of an episode, after \<open>env.reset()\<close>.\<close>

definition episode_start :: "'e \<Rightarrow> vec \<Rightarrow> 'o Agent \<Rightarrow> ('e, 'o) loop_state" where
  "episode_start e st ag =
     \<lparr>env = e, state = st, terminated = False, truncated = False, episode_reward = 0,
      step_count = 0, agent = ag\<rparr>"

subsection \<open>Agent.run: after the step loop (lines 191-192 and 224-256)\<close>

text \<open>
  \<open>best_reward\<close> and \<open>best_average_reward\<close> start at \<open>-np.inf\<close> and are real numbers once
  they have been assigned.
\<close>

datatype xreal = NegInf | Fin real

fun exceeds :: "real \<Rightarrow> xreal \<Rightarrow> bool" where
  "exceeds r NegInf = True"
| "exceeds r (Fin b) = (b < r)"

text \<open>
  What \<open>run\<close> keeps between episodes: its two locals and the agent's reward history and
  time of the last graph.
\<close>

record bookkeeping =
  best_reward :: xreal
  best_average_reward :: xreal
  rewards_per_episode :: "real list"
  last_graph_update_time :: real

text \<open>
  The clock and Python's number formatting are outside the program: the model takes the
  time of line 228 in seconds, the \<open>strftime\<close> strings of lines 235, 252 and 255, and the
  formatting of \<open>:0.1f\<close>, \<open>:+.1f\<close> and of an integer as functions.
\<close>

record clock =
  current_time :: real
  stamp_average :: string
  stamp_best :: string
  stamp_eval :: string

record formats =
  fmt_1f :: "real \<Rightarrow> string"
  fmt_signed_1f :: "real \<Rightarrow> string"
  fmt_int :: "int \<Rightarrow> string"

text \<open>The effects of the bookkeeping, in order: printing, the log file, the checkpoint, the graph.\<close>

datatype io_event = Print string | LogAppend string | Save | SaveGraph "real list"

definition average_message :: "formats \<Rightarrow> string \<Rightarrow> real \<Rightarrow> int \<Rightarrow> string" where
  "average_message F stamp average_reward episode =
     stamp @ '': Average Reward over last 100 episodes: '' @ fmt_1f F average_reward
       @ '' at episode: '' @ fmt_int F (episode + 1)"

definition best_average_message :: "formats \<Rightarrow> string \<Rightarrow> real \<Rightarrow> int \<Rightarrow> string" where
  "best_average_message F stamp best_average episode =
     stamp @ '': New Best Average Reward: '' @ fmt_1f F best_average
       @ '' at episode: '' @ fmt_int F (episode + 1) @ '', saving model...''"

definition best_reward_message :: "formats \<Rightarrow> string \<Rightarrow> real \<Rightarrow> real \<Rightarrow> int \<Rightarrow> string" where
  "best_reward_message F stamp episode_rew percent episode =
     stamp @ '': New Best Reward: '' @ fmt_1f F episode_rew
       @ '' ('' @ fmt_signed_1f F percent @ ''%) at episode '' @ fmt_int F episode
       @ '', saving model...''"

definition eval_message :: "formats \<Rightarrow> string \<Rightarrow> real \<Rightarrow> string" where
  "eval_message F stamp episode_rew = stamp @ '': This Episode Reward: '' @ fmt_1f F episode_rew"

text \<open>Lines 228-231: the graph is redrawn when more than ten seconds have passed.\<close>

definition graph_update :: "clock \<Rightarrow> bookkeeping \<Rightarrow> bookkeeping \<times> io_event list" where
  "graph_update clk bk =
     (if current_time clk - last_graph_update_time bk > 10
      then (bk\<lparr>last_graph_update_time := current_time clk\<rparr>,
            [SaveGraph (rewards_per_episode bk)])
      else (bk, []))"

text \<open>Lines 233-247: every hundredth episode; \<open>xs[-100:]\<close> is the last hundred elements.\<close>

definition last_100 :: "real list \<Rightarrow> real list" where
  "last_100 xs = drop (length xs - 100) xs"

definition average_report ::
  "formats \<Rightarrow> clock \<Rightarrow> int \<Rightarrow> bookkeeping \<Rightarrow> bookkeeping \<times> io_event list" where
  "average_report F clk episode bk =
     (if (episode + 1) mod 100 = 0 then
        (let average_reward = mean (last_100 (rewards_per_episode bk));
             msg = average_message F (stamp_average clk) average_reward episode
         in if exceeds average_reward (best_average_reward bk) then
              (bk\<lparr>best_average_reward := Fin average_reward\<rparr>,
               [Print msg, LogAppend msg, Save,
                Print (best_average_message F (stamp_average clk) average_reward episode),
                LogAppend (best_average_message F (stamp_average clk) average_reward episode)])
            else (bk, [Print msg, LogAppend msg]))
      else (bk, []))"

text \<open>
  Lines 249-253. Line 251 assigns \<open>best_reward\<close> before line 252 formats the message, so
  the percentage is computed from the new value. The division is Python's float
  division, which raises on a zero divisor; \<open>evs\<close> are the effects that came before.
\<close>

definition best_reward_report ::
  "formats \<Rightarrow> clock \<Rightarrow> int \<Rightarrow> real \<Rightarrow> bookkeeping \<Rightarrow> io_event list
     \<Rightarrow> (error \<times> io_event list) + (bookkeeping \<times> io_event list)" where
  "best_reward_report F clk episode episode_rew bk evs =
     (if exceeds episode_rew (best_reward bk) \<and> episode > 0 then
        (let best = episode_rew
         in if best = 0 then Inl (ZeroDivisionError, evs)
            else Inr (bk\<lparr>best_reward := Fin best\<rparr>,
                      evs @ [Print (best_reward_message F (stamp_best clk) episode_rew
                                      (\<bar>(episode_rew - best) / best\<bar> * 100) episode)]))
      else Inr (bk, evs))"

text \<open>Lines 224-256: the end of an episode.\<close>

definition episode_end ::
  "formats \<Rightarrow> bool \<Rightarrow> clock \<Rightarrow> int \<Rightarrow> real \<Rightarrow> bookkeeping
     \<Rightarrow> (error \<times> io_event list) + (bookkeeping \<times> io_event list)" where
  "episode_end F is_training clk episode episode_rew bk =
     (let bk1 = bk\<lparr>rewards_per_episode := rewards_per_episode bk @ [episode_rew]\<rparr>
      in if is_training then
           (case graph_update clk bk1 of
              (bk2, ev_graph) \<Rightarrow>
                (case average_report F clk episode bk2 of
                   (bk3, ev_average) \<Rightarrow>
                     best_reward_report F clk episode episode_rew bk3 (ev_graph @ ev_average)))
         else Inr (bk1, [Print (eval_message F (stamp_eval clk) episode_rew)]))"

text \<open>Lines 191-192: the trackers at the start of \<open>run\<close>.\<close>

definition run_start :: "real \<Rightarrow> bookkeeping" where
  "run_start start_time =
     \<lparr>best_reward = NegInf, best_average_reward = NegInf, rewards_per_episode = [],
      last_graph_update_time = start_time\<rparr>"

subsection \<open>A small agent, environment and run\<close>

text \<open>A small agent on which the theorems below are instantiated.\<close>

definition example_networks :: "unit networks" where
  "example_networks =
     \<lparr>actor_forward = (\<lambda>\<theta> s. [0]),
      critic_forward = (\<lambda>\<theta> s a. (2, 3)),
      critic_Q1 = (\<lambda>\<theta> s a. 2),
      optimizer_step = (\<lambda>opt loss \<theta>. (opt, \<theta>))\<rparr>"

definition example_hyper :: hyperparameters where
  "example_hyper =
     \<lparr>action_dim = 1, action_low = -1, action_high = 1, replay_buffer_size = 3,
      batch_size = 2, discount = 99 / 100, tau = 1 / 2, policy_noise = 1 / 5,
      noise_clip = 1 / 2, policy_freq = 2, max_timestep = 3\<rparr>"

definition example_agent :: "unit Agent" where
  "example_agent =
     \<lparr>hyper = example_hyper, total_it = 0,
      actor = [[1]], actor_target = [[3]], actor_optimizer = (),
      critic = [[2]], critic_target = [[4]], critic_optimizer = (),
      replay_buffer = \<lparr>buffer = [([0], [0], 1, [0], False), ([0], [0], 5, [0], True)],
                       maxlen = 3\<rparr>\<rparr>"

definition no_noise :: "nat \<Rightarrow> nat \<Rightarrow> real" where
  "no_noise i j = 0"

definition unit_draws :: "nat \<Rightarrow> real" where
  "unit_draws j = 1"

definition neg_draws :: "nat \<Rightarrow> real" where
  "neg_draws j = - 5 / 2"

definition example_buffer :: ReplayBuffer where
  "example_buffer = \<lparr>buffer = [([0], [0], 1, [0], False), ([0], [0], 5, [0], True)], maxlen = 3\<rparr>"

definition example_call :: "ReplayBuffer \<times> nat list \<times> (nat \<Rightarrow> nat \<Rightarrow> real)" where
  "example_call = (replay_buffer example_agent, [0, 1], no_noise)"

definition example_agent_trained :: "unit Agent" where
  "example_agent_trained = example_agent\<lparr>total_it := 1, critic_target := [[3]], actor_target := [[2]]\<rparr>"

definition example_agent_low0 :: "unit Agent" where
  "example_agent_low0 = example_agent\<lparr>hyper := example_hyper\<lparr>action_low := 0\<rparr>\<rparr>"

definition zero_net :: "params \<Rightarrow> vec \<Rightarrow> vec" where
  "zero_net \<theta> s = [0]"

definition wide_net :: "params \<Rightarrow> vec \<Rightarrow> vec" where
  "wide_net \<theta> s = [7]"

definition neg_noise :: "nat \<Rightarrow> nat \<Rightarrow> real" where
  "neg_noise i j = - 5 / 2"

definition example_networks_low0 :: "unit networks" where
  "example_networks_low0 = with_TD3_Actor example_networks zero_net (hyper example_agent_low0)"

definition example_networks_wide :: "unit networks" where
  "example_networks_wide = with_TD3_Actor example_networks wide_net (hyper example_agent)"

definition example_env_step :: "nat env_step" where
  "example_env_step e a = (Suc e, [real e], 1, False, False)"

definition example_draws :: "int \<Rightarrow> draws" where
  "example_draws k = \<lparr>explore_z = (\<lambda>j. 1), sample_idxs = [0, 1], smooth_z = no_noise\<rparr>"

definition example_agent_stored :: "unit Agent" where
  "example_agent_stored =
     example_agent\<lparr>replay_buffer :=
       add (replay_buffer example_agent) [0] [1 / 5] 1 [0] False\<rparr>"

definition example_agent_learned :: "unit Agent" where
  "example_agent_learned =
     example_agent_stored\<lparr>total_it := 1, critic_target := [[3]], actor_target := [[2]]\<rparr>"

definition example_agent_freq0 :: "unit Agent" where
  "example_agent_freq0 = example_agent_stored\<lparr>hyper := example_hyper\<lparr>policy_freq := 0\<rparr>\<rparr>"

definition example_before_last :: "(nat, unit) loop_state" where
  "example_before_last =
     \<lparr>env = 2, state = [1], terminated = False, truncated = False, episode_reward = 2,
      step_count = 2,
      agent = example_agent\<lparr>total_it := 1, actor_target := [[2]], critic_target := [[3]],
        replay_buffer := \<lparr>buffer = [([0], [0], 5, [0], True),
                                     ([0], [1 / 5], 1, [0], False),
                                     ([0], [1 / 5], 1, [1], False)], maxlen = 3\<rparr>\<rparr>\<rparr>"

definition example_final :: "(nat, unit) loop_state" where
  "example_final =
     \<lparr>env = 3, state = [2], terminated = True, truncated = False, episode_reward = 3,
      step_count = 3,
      agent = example_agent\<lparr>total_it := 2, actor_target := [[2]], critic_target := [[3]],
        replay_buffer := \<lparr>buffer = [([0], [1 / 5], 1, [0], False),
                                     ([0], [1 / 5], 1, [1], False),
                                     ([1], [1 / 5], 1, [2], True)], maxlen = 3\<rparr>\<rparr>\<rparr>"

definition example_env_terminating :: "nat env_step" where
  "example_env_terminating e a = (Suc e, [real e], 1, True, False)"

definition example_env_truncating :: "nat env_step" where
  "example_env_truncating e a = (Suc e, [real e], 1, False, True)"

definition example_terminated :: "(nat, unit) loop_state" where
  "example_terminated =
     \<lparr>env = 1, state = [0], terminated = True, truncated = False, episode_reward = 1,
      step_count = 1,
      agent = example_agent\<lparr>total_it := 1, actor_target := [[2]], critic_target := [[3]],
        replay_buffer := \<lparr>buffer = [([0], [0], 1, [0], False), ([0], [0], 5, [0], True),
                                     ([0], [1 / 5], 1, [0], True)], maxlen = 3\<rparr>\<rparr>\<rparr>"

definition example_truncated :: "(nat, unit) loop_state" where
  "example_truncated =
     \<lparr>env = 1, state = [0], terminated = False, truncated = True, episode_reward = 1,
      step_count = 1,
      agent = example_agent\<lparr>total_it := 1, actor_target := [[2]], critic_target := [[3]],
        replay_buffer := \<lparr>buffer = [([0], [0], 1, [0], False), ([0], [0], 5, [0], True),
                                     ([0], [1 / 5], 1, [0], False)], maxlen = 3\<rparr>\<rparr>\<rparr>"

definition example_formats :: formats where
  "example_formats = \<lparr>fmt_1f = (\<lambda>x. ''x''), fmt_signed_1f = (\<lambda>x. if x = 0 then ''+0.0'' else ''?''),
                       fmt_int = (\<lambda>i. ''i'')\<rparr>"

definition example_clock :: clock where
  "example_clock = \<lparr>current_time = 5, stamp_average = ''t1'', stamp_best = ''t2'', stamp_eval = ''t3''\<rparr>"

definition example_book :: bookkeeping where
  "example_book = (run_start 0)\<lparr>best_reward := Fin 1\<rparr>"

definition example_events :: "io_event list" where
  "example_events =
     [Print (average_message example_formats ''t1'' 3 99),
      LogAppend (average_message example_formats ''t1'' 3 99),
      Save,
      Print (best_average_message example_formats ''t1'' 3 99),
      LogAppend (best_average_message example_formats ''t1'' 3 99),
      Print (best_reward_message example_formats ''t2'' 3 0 99)]"

section \<open>The example, evaluated\<close>

lemma example_train:
  "train example_networks [0, 1] no_noise example_agent
     = Inr (example_agent_trained,
            [CriticStep [149 / 50, 5], ActorStep, SyncCriticTarget, SyncActorTarget])"
  by (simp add: train_def example_networks_def example_agent_def example_hyper_def
        example_agent_trained_def no_noise_def
        sample_def random_sample_def numeral_2_eq_2 next_actions_def smoothed_next_action_def
        normal_draws_def broadcast_add_def clip_def compute_target_Q_def lerp_copy_def
        Let_def)

lemma example_train_run:
  "train_run example_networks [example_call] example_agent
     = Inr (example_agent_trained,
            [[CriticStep [149 / 50, 5], ActorStep, SyncCriticTarget, SyncActorTarget]])"
proof -
  have "example_agent\<lparr>replay_buffer := replay_buffer example_agent\<rparr> = example_agent"
    by simp
  then show ?thesis
    unfolding example_call_def
    by (simp only: train_run.simps example_train sum.case prod.case)
qed

lemma example_learn:
  "learn_if_due example_networks (example_draws 0) 0 example_agent_stored
     = Inr example_agent_learned"
  by (simp add: learn_if_due_def train_def example_networks_def example_agent_def
        example_hyper_def example_agent_stored_def example_agent_learned_def
        example_draws_def no_noise_def add_def size_rb_def
        sample_def random_sample_def numeral_2_eq_2 next_actions_def smoothed_next_action_def
        normal_draws_def broadcast_add_def clip_def compute_target_Q_def lerp_copy_def
        Let_def)

lemma example_learn_freq0:
  "learn_if_due example_networks (example_draws 0) 0 example_agent_freq0 = Inl ZeroDivisionError"
  by (simp add: learn_if_due_def example_agent_freq0_def example_agent_stored_def
        example_agent_def example_hyper_def add_def size_rb_def)

lemma example_choose:
  "choose_action example_networks True unit_draws example_agent [0] = Inr [1 / 5]"
  by (simp add: choose_action_def select_action_def explore_def normal_draws_def
        broadcast_add_def clip_def example_networks_def example_agent_def example_hyper_def
        unit_draws_def)

lemma example_next_actions:
  "next_actions example_hyper (actor_forward example_networks [[3]]) no_noise [[0], [0]] [[0], [0]]
     = Inr [[0], [0]]"
  by (simp add: next_actions_def smoothed_next_action_def normal_draws_def
        broadcast_add_def clip_def example_networks_def example_hyper_def no_noise_def)

lemma example_last_step:
  "loop_body example_networks example_env_step True (example_draws 2) example_before_last
     = Inr example_final"
  by (simp add: loop_body_def choose_action_def select_action_def explore_def
        learn_if_due_def train_def example_networks_def example_agent_def
        example_hyper_def example_final_def example_before_last_def example_env_step_def
        example_draws_def no_noise_def add_def size_rb_def
        sample_def random_sample_def numeral_2_eq_2 next_actions_def smoothed_next_action_def
        normal_draws_def broadcast_add_def clip_def compute_target_Q_def lerp_copy_def
        Let_def)

lemma example_first_action:
  "choose_action example_networks True (explore_z (example_draws 0))
     (agent (episode_start (0::nat) [0] example_agent))
     (state (episode_start (0::nat) [0] example_agent)) = Inr [1 / 5]"
  by (simp add: choose_action_def select_action_def explore_def normal_draws_def
        broadcast_add_def clip_def example_networks_def example_agent_def example_hyper_def
        example_draws_def episode_start_def)

lemma example_step_terminating:
  "loop_body example_networks example_env_terminating True (example_draws 0)
     (episode_start 0 [0] example_agent) = Inr example_terminated"
  by (simp add: loop_body_def choose_action_def select_action_def explore_def
        learn_if_due_def train_def example_networks_def example_agent_def
        example_hyper_def example_terminated_def example_env_terminating_def
        episode_start_def example_draws_def no_noise_def add_def size_rb_def
        sample_def random_sample_def numeral_2_eq_2 next_actions_def smoothed_next_action_def
        normal_draws_def broadcast_add_def clip_def compute_target_Q_def lerp_copy_def
        Let_def)

lemma example_step_truncating:
  "loop_body example_networks example_env_truncating True (example_draws 0)
     (episode_start 0 [0] example_agent) = Inr example_truncated"
  by (simp add: loop_body_def choose_action_def select_action_def explore_def
        learn_if_due_def train_def example_networks_def example_agent_def
        example_hyper_def example_truncated_def example_env_truncating_def
        episode_start_def example_draws_def no_noise_def add_def size_rb_def
        sample_def random_sample_def numeral_2_eq_2 next_actions_def smoothed_next_action_def
        normal_draws_def broadcast_add_def clip_def compute_target_Q_def lerp_copy_def
        Let_def)

lemma example_episode:
  "episode_loop example_networks example_env_step True example_draws
     (episode_start 0 [0] example_agent) = Some (Inr example_final)"
  by (simp add: episode_loop.simps loop_body_def choose_action_def select_action_def explore_def
        learn_if_due_def train_def example_networks_def example_agent_def
        example_hyper_def example_final_def example_env_step_def episode_start_def
        example_draws_def no_noise_def add_def size_rb_def
        sample_def random_sample_def numeral_2_eq_2 next_actions_def smoothed_next_action_def
        normal_draws_def broadcast_add_def clip_def compute_target_Q_def lerp_copy_def
        Let_def)

lemma example_episode_end:
  "episode_end example_formats True example_clock 99 3 example_book
     = Inr (example_book\<lparr>rewards_per_episode := [3], best_average_reward := Fin 3,
                          best_reward := Fin 3\<rparr>, example_events)"
  by (simp add: episode_end_def graph_update_def average_report_def best_reward_report_def
        last_100_def mean_def example_book_def run_start_def example_clock_def
        example_events_def Let_def)

lemma example_best_report:
  "best_reward_report example_formats example_clock 1 3 example_book []
     = Inr (example_book\<lparr>best_reward := Fin 3\<rparr>,
            [Print (best_reward_message example_formats (stamp_best example_clock) 3 0 1)])"
  by (simp add: best_reward_report_def example_book_def run_start_def Let_def)

section \<open>The replay buffer\<close>

lemma add_maxlen: "maxlen (add rb s a r s' d) = maxlen rb"
  by (simp add: add_def Let_def)

lemma add_buffer_window:
  assumes "buffer rb = drop (length pre - maxlen rb) pre"
  shows "buffer (add rb s a r s' d)
           = drop (length (pre @ [(s, a, r, s', d)]) - maxlen rb) (pre @ [(s, a, r, s', d)])"
proof -
  let ?t = "(s, a, r, s', d)"
  let ?k = "length pre - maxlen rb"
  have app: "buffer rb @ [?t] = drop ?k (pre @ [?t])"
    using assms by simp
  have len: "length (buffer rb @ [?t]) = Suc (length pre - ?k)"
    using assms by simp
  show ?thesis
  proof (cases "maxlen rb \<le> length pre")
    case True
    then have trim: "maxlen rb < length (buffer rb @ [?t])"
      using len by simp
    have "tl (buffer rb @ [?t]) = drop (Suc ?k) (pre @ [?t])"
      by (simp only: app tl_drop drop_Suc)
    moreover have "length (pre @ [?t]) - maxlen rb = Suc ?k"
      using True by simp
    ultimately show ?thesis
      using trim by (simp add: add_def Let_def)
  next
    case False
    then have "\<not> maxlen rb < length (buffer rb @ [?t])"
      using len by simp
    then show ?thesis
      using False app by (simp add: add_def Let_def)
  qed
qed

lemma add_all_window:
  "buffer rb = drop (length pre - maxlen rb) pre \<Longrightarrow>
   buffer (add_all rb ts) = drop (length (pre @ ts) - maxlen rb) (pre @ ts)
   \<and> maxlen (add_all rb ts) = maxlen rb"
proof (induction ts arbitrary: rb pre)
  case Nil
  then show ?case by simp
next
  case (Cons t ts)
  obtain s a r s' d where t: "t = (s, a, r, s', d)" by (cases t) auto
  have "buffer (add rb s a r s' d) = drop (length (pre @ [t]) - maxlen (add rb s a r s' d)) (pre @ [t])"
    using add_buffer_window [OF Cons.prems] by (simp add: t add_maxlen)
  from Cons.IH [OF this] show ?case by (simp add: t add_maxlen)
qed

lemma add_last:
  assumes "0 < maxlen rb"
  shows "buffer (add rb s a r s' d) \<noteq> [] \<and> last (buffer (add rb s a r s' d)) = (s, a, r, s', d)"
proof (cases "maxlen rb < length (buffer rb @ [(s, a, r, s', d)])")
  case False
  then show ?thesis by (simp add: add_def Let_def)
next
  case True
  then have "buffer rb \<noteq> []" using assms by auto
  then have "tl (buffer rb @ [(s, a, r, s', d)]) = tl (buffer rb) @ [(s, a, r, s', d)]"
    by simp
  then show ?thesis using True by (simp add: add_def Let_def)
qed

text \<open>
  C3. A store constructed with capacity \<open>C\<close> never holds more than \<open>C\<close> transitions, whatever
  the sequence of \<open>add\<close> calls, and it holds the last \<open>C\<close> transitions added, oldest first;
  after more than \<open>C\<close> insertions these are exactly \<open>C\<close> transitions.
\<close>

theorem replay_buffer_capacity_fifo:
  assumes "ReplayBuffer_init C = Inr rb"
  shows "size_rb (add_all rb ts) \<le> C
         \<and> buffer (add_all rb ts) = drop (length ts - nat C) ts
         \<and> (nat C < length ts \<longrightarrow> size_rb (add_all rb ts) = C)"
proof -
  from assms have C: "0 \<le> C" and rb: "buffer rb = []" "maxlen rb = nat C"
    by (auto simp: ReplayBuffer_init_def split: if_splits)
  have "buffer rb = drop (length ([]::transition list) - maxlen rb) []"
    using rb by simp
  from add_all_window [OF this, of ts]
  have b: "buffer (add_all rb ts) = drop (length ts - nat C) ts"
    using rb by simp
  then show ?thesis using C by (auto simp: size_rb_def)
qed

theorem replay_buffer_capacity_fifo_witness:
  "ReplayBuffer_init 3 = Inr \<lparr>buffer = [], maxlen = 3\<rparr>
   \<and> buffer (add_all \<lparr>buffer = [], maxlen = 3\<rparr>
        [([1], [0], 1, [2], False), ([2], [0], 1, [3], False), ([3], [0], 1, [4], False),
         ([4], [0], 1, [5], False), ([5], [0], 1, [6], True)])
     = [([3], [0], 1, [4], False), ([4], [0], 1, [5], False), ([5], [0], 1, [6], True)]"
proof -
  have h: "ReplayBuffer_init 3 = Inr \<lparr>buffer = [], maxlen = 3\<rparr>"
    by (simp add: ReplayBuffer_init_def)
  show ?thesis
    using h replay_buffer_capacity_fifo [OF h,
      of "[([1], [0], 1, [2], False), ([2], [0], 1, [3], False), ([3], [0], 1, [4], False),
           ([4], [0], 1, [5], False), ([5], [0], 1, [6], True)]"]
    by simp
qed

subsection \<open>Selection from the pool\<close>

lemma pool_select_length: "length (pool_select rs pool k) = k"
  by (induction k arbitrary: rs pool) (simp_all add: Let_def)

lemma pool_select_map:
  "k \<le> length xs \<Longrightarrow> pool_select rs (map f xs) k = map f (pool_select rs xs k)"
proof (induction k arbitrary: rs xs)
  case 0
  then show ?case by simp
next
  case (Suc k)
  then have ne: "xs \<noteq> []" by auto
  define j where "j = (case rs of [] \<Rightarrow> 0 | r # _ \<Rightarrow> r) mod length xs"
  have j: "j < length xs" using ne by (simp add: j_def)
  have "butlast ((map f xs)[j := last (map f xs)]) = map f (butlast (xs[j := last xs]))"
    using ne by (simp add: map_update last_map map_butlast)
  moreover have "k \<le> length (butlast (xs[j := last xs]))" using Suc.prems by simp
  ultimately show ?case
    using Suc.IH [of "butlast (xs[j := last xs])" "tl rs"] j
    by (simp add: Let_def j_def)
qed

lemma pool_rest:
  assumes "distinct xs" "j < length xs"
  shows "distinct (butlast (xs[j := last xs]))
       \<and> set (butlast (xs[j := last xs])) = set xs - {xs ! j}
       \<and> length (butlast (xs[j := last xs])) = length xs - 1"
proof (cases "j = length xs - 1")
  case True
  have ne: "xs \<noteq> []" using assms(2) by auto
  have lj: "xs ! j = last xs" using True last_conv_nth [OF ne] by simp
  then have same: "xs[j := last xs] = xs" by (metis list_update_id)
  have "xs = butlast xs @ [last xs]" using ne by simp
  then have "distinct (butlast xs @ [last xs])" using assms(1) by simp
  then have "last xs \<notin> set (butlast xs)" "distinct (butlast xs)" by simp_all
  moreover have "set xs = insert (last xs) (set (butlast xs))"
    using \<open>xs = butlast xs @ [last xs]\<close> by (metis list.simps(15) rotate1.simps(2) set_rotate1)
  ultimately show ?thesis using same lj by auto
next
  case False
  have ne: "xs \<noteq> []" using assms(2) by auto
  have jb: "j < length (butlast xs)" using False assms(2) by simp
  have split: "xs = butlast xs @ [last xs]" using ne by simp
  then have d: "distinct (butlast xs @ [last xs])" using assms(1) by simp
  then have l: "last xs \<notin> set (butlast xs)" and db: "distinct (butlast xs)" by simp_all
  have bu: "butlast (xs[j := last xs]) = (butlast xs)[j := last xs]"
    using False by (simp add: butlast_list_update)
  have nj: "butlast xs ! j = xs ! j" using jb by (simp add: nth_butlast)
  have s1: "set ((butlast xs)[j := last xs]) = insert (last xs) (set (butlast xs) - {xs ! j})"
    using set_update_distinct [OF db jb, of "last xs"] nj by simp
  have sx: "set xs = insert (last xs) (set (butlast xs))"
    using split by (metis list.simps(15) rotate1.simps(2) set_rotate1)
  have neq: "xs ! j \<noteq> last xs"
    using l nj jb by (metis nth_mem)
  have "distinct ((butlast xs)[j := last xs])"
    using db l by (simp add: distinct_list_update)
  then show ?thesis using bu s1 sx neq by auto
qed

lemma pool_select_valid:
  "distinct xs \<Longrightarrow> k \<le> length xs \<Longrightarrow>
   distinct (pool_select rs xs k) \<and> set (pool_select rs xs k) \<subseteq> set xs"
proof (induction k arbitrary: rs xs)
  case 0
  then show ?case by simp
next
  case (Suc k)
  then have ne: "xs \<noteq> []" by auto
  define j where "j = (case rs of [] \<Rightarrow> 0 | r # _ \<Rightarrow> r) mod length xs"
  have j: "j < length xs" using ne by (simp add: j_def)
  note rest = pool_rest [OF Suc.prems(1) j]
  have "k \<le> length (butlast (xs[j := last xs]))" using Suc.prems(2) by simp
  with rest Suc.IH [of "butlast (xs[j := last xs])" "tl rs"]
  have ih: "distinct (pool_select (tl rs) (butlast (xs[j := last xs])) k)"
    "set (pool_select (tl rs) (butlast (xs[j := last xs])) k) \<subseteq> set xs - {xs ! j}"
    by auto
  have "pool_select rs xs (Suc k) = xs ! j # pool_select (tl rs) (butlast (xs[j := last xs])) k"
    by (simp add: Let_def j_def)
  then show ?case using ih j by auto
qed

lemma pool_select_unique_source:
  "distinct xs \<Longrightarrow> k \<le> length xs \<Longrightarrow> length ys = k \<Longrightarrow> distinct ys \<Longrightarrow>
   set ys \<subseteq> set xs \<Longrightarrow>
   \<exists>!rs. length rs = k \<and> (\<forall>i<k. rs ! i < length xs - i) \<and> pool_select rs xs k = ys"
proof (induction k arbitrary: xs ys)
  case 0
  then show ?case by auto
next
  case (Suc k)
  from Suc.prems(3) obtain y ys' where ys: "ys = y # ys'" and lys: "length ys' = k"
    by (cases ys) auto
  from Suc.prems(5) ys obtain r where r: "r < length xs" "xs ! r = y"
    by (auto simp: in_set_conv_nth)
  let ?P = "butlast (xs[r := last xs])"
  note rest = pool_rest [OF Suc.prems(1) r(1)]
  have kP: "k \<le> length ?P" using Suc.prems(2) rest by simp
  have dys: "distinct ys'" and sub: "set ys' \<subseteq> set ?P"
    using Suc.prems(4,5) ys rest r(2) by auto
  from Suc.IH [OF _ kP lys dys sub] rest
  have ih: "\<exists>!rs. length rs = k \<and> (\<forall>i<k. rs ! i < length ?P - i) \<and> pool_select rs ?P k = ys'"
    by simp
  then obtain rs' where rs': "length rs' = k" "\<forall>i<k. rs' ! i < length ?P - i"
    "pool_select rs' ?P k = ys'"
    by blast
  have lenP: "length ?P = length xs - 1" using rest by simp
  show ?case
  proof (rule ex1I [of _ "r # rs'"])
    have "\<forall>i<Suc k. (r # rs') ! i < length xs - i"
    proof (intro allI impI)
      fix i assume "i < Suc k"
      then show "(r # rs') ! i < length xs - i"
        using r(1) rs'(2) lenP by (cases i) auto
    qed
    moreover have "pool_select (r # rs') xs (Suc k) = ys"
      using r rs'(3) ys by (simp add: Let_def)
    ultimately show "length (r # rs') = Suc k \<and> (\<forall>i<Suc k. (r # rs') ! i < length xs - i)
        \<and> pool_select (r # rs') xs (Suc k) = ys"
      using rs'(1) by simp
  next
    fix qs
    assume q: "length qs = Suc k \<and> (\<forall>i<Suc k. qs ! i < length xs - i)
        \<and> pool_select qs xs (Suc k) = ys"
    then obtain q qs' where qs: "qs = q # qs'" and lq: "length qs' = k"
      by (cases qs) auto
    from q qs have q0: "q < length xs" by auto
    from q qs q0 have hd: "xs ! q = y"
      and tl: "pool_select qs' (butlast (xs[q := last xs])) k = ys'"
      using ys by (simp_all add: Let_def)
    have "xs ! q = xs ! r" using hd r(2) by simp
    then have qr: "q = r"
      using nth_eq_iff_index_eq [OF Suc.prems(1) q0 r(1)] by simp
    have "\<forall>i<k. qs' ! i < length ?P - i"
    proof (intro allI impI)
      fix i assume "i < k"
      then have "qs ! Suc i < length xs - Suc i" using q by auto
      then show "qs' ! i < length ?P - i" using qs lenP by simp
    qed
    with lq tl qr ih rs' have "qs' = rs'" by blast
    then show "qs = r # rs'" using qs qr by simp
  qed
qed

lemma pool_select_bij:
  assumes "distinct xs" "k \<le> length xs"
  shows "bij_betw (\<lambda>rs. pool_select rs xs k)
           {rs. length rs = k \<and> (\<forall>i<k. rs ! i < length xs - i)}
           {ys. length ys = k \<and> distinct ys \<and> set ys \<subseteq> set xs}"
  unfolding bij_betw_def
proof
  show "inj_on (\<lambda>rs. pool_select rs xs k) {rs. length rs = k \<and> (\<forall>i<k. rs ! i < length xs - i)}"
  proof (rule inj_onI)
    fix a b
    assume a: "a \<in> {rs. length rs = k \<and> (\<forall>i<k. rs ! i < length xs - i)}"
      and b: "b \<in> {rs. length rs = k \<and> (\<forall>i<k. rs ! i < length xs - i)}"
      and eq: "pool_select a xs k = pool_select b xs k"
    let ?ys = "pool_select b xs k"
    have "\<exists>!rs. length rs = k \<and> (\<forall>i<k. rs ! i < length xs - i) \<and> pool_select rs xs k = ?ys"
      using pool_select_unique_source [OF assms pool_select_length] pool_select_valid [OF assms]
      by blast
    then show "a = b" using a b eq by blast
  qed
  show "(\<lambda>rs. pool_select rs xs k) ` {rs. length rs = k \<and> (\<forall>i<k. rs ! i < length xs - i)}
          = {ys. length ys = k \<and> distinct ys \<and> set ys \<subseteq> set xs}"
  proof (intro equalityI subsetI)
    fix ys assume "ys \<in> (\<lambda>rs. pool_select rs xs k) ` {rs. length rs = k \<and> (\<forall>i<k. rs ! i < length xs - i)}"
    then show "ys \<in> {ys. length ys = k \<and> distinct ys \<and> set ys \<subseteq> set xs}"
      using pool_select_valid [OF assms] pool_select_length by auto
  next
    fix ys assume "ys \<in> {ys. length ys = k \<and> distinct ys \<and> set ys \<subseteq> set xs}"
    then have "\<exists>!rs. length rs = k \<and> (\<forall>i<k. rs ! i < length xs - i) \<and> pool_select rs xs k = ys"
      using pool_select_unique_source [OF assms] by blast
    then show "ys \<in> (\<lambda>rs. pool_select rs xs k) ` {rs. length rs = k \<and> (\<forall>i<k. rs ! i < length xs - i)}"
      by blast
  qed
qed

lemma drawn_positions_rows:
  assumes "0 \<le> k" "k \<le> int (length xs)"
  shows "pool_select rs xs (nat k) = map (\<lambda>i. xs ! i) (drawn_positions (length xs) k rs)"
proof -
  have "nat k \<le> length [0..<length xs]" using assms by simp
  from pool_select_map [OF this, of rs "\<lambda>i. xs ! i"]
  show ?thesis by (simp add: drawn_positions_def map_nth)
qed

lemma drawn_positions_valid:
  assumes "0 \<le> k" "k \<le> int n"
  shows "valid_draw n k (drawn_positions n k rs)"
proof -
  have "nat k \<le> length [0..<n]" using assms by simp
  from pool_select_valid [OF _ this, of rs] pool_select_length [of rs "[0..<n]" "nat k"] assms
  show ?thesis
    by (auto simp: valid_draw_def drawn_positions_def list_all_iff)
qed

lemma drawn_positions_bij:
  assumes "0 \<le> k" "k \<le> int n"
  shows "bij_betw (drawn_positions n k) {rs. valid_source n k rs} {idxs. valid_draw n k idxs}"
proof -
  have k: "nat k \<le> length [0..<n]" using assms by simp
  have src: "{rs. valid_source n k rs}
      = {rs. length rs = nat k \<and> (\<forall>i<nat k. rs ! i < length [0..<n] - i)}"
    using assms by (auto simp: valid_source_def list_all_iff)
  have tgt: "{idxs. valid_draw n k idxs}
      = {ys. length ys = nat k \<and> distinct ys \<and> set ys \<subseteq> set [0..<n]}"
    using assms by (auto simp: valid_draw_def list_all_iff)
  have "bij_betw (\<lambda>rs. pool_select rs [0..<n] (nat k)) {rs. valid_source n k rs}
          {idxs. valid_draw n k idxs}"
    unfolding src tgt by (rule pool_select_bij [OF _ k]) simp
  moreover have "drawn_positions n k = (\<lambda>rs. pool_select rs [0..<n] (nat k))"
    by (rule ext) (simp add: drawn_positions_def)
  ultimately show ?thesis by simp
qed

subsection \<open>Sampling\<close>

lemma sample_Inr:
  assumes "sample rb k idxs = Inr (S, A, R, S', D)"
  shows "1 \<le> k \<and> k \<le> size_rb rb
         \<and> length S = nat k \<and> length A = nat k \<and> length R = nat k
         \<and> length S' = nat k \<and> length D = nat k"
proof -
  from assms have k: "0 \<le> k" "k \<le> size_rb rb"
    and ne: "pool_select idxs (buffer rb) (nat k) \<noteq> []"
    and parts: "S = map (\<lambda>(s, a, r, s', d). s) (pool_select idxs (buffer rb) (nat k))"
      "A = map (\<lambda>(s, a, r, s', d). a) (pool_select idxs (buffer rb) (nat k))"
      "R = map (\<lambda>(s, a, r, s', d). r) (pool_select idxs (buffer rb) (nat k))"
      "S' = map (\<lambda>(s, a, r, s', d). s') (pool_select idxs (buffer rb) (nat k))"
      "D = map (\<lambda>(s, a, r, s', d). d) (pool_select idxs (buffer rb) (nat k))"
    by (auto simp: sample_def random_sample_def size_rb_def split: if_splits)
  from ne have "nat k \<noteq> 0" by (cases "nat k") auto
  then show ?thesis using k parts by (simp add: pool_select_length)
qed

text \<open>
  C8 (amended). For \<open>1 \<le> n \<le> size\<close>, \<open>sample(n)\<close> returns five sequences of length \<open>n\<close>
  aligned by index: index \<open>i\<close> of the five is the stored transition at the \<open>i\<close>-th drawn
  position, component for component (so each row has the shape it was stored with). The
  drawn positions are distinct (no replacement within the batch), and the draw is
  uniform: every ordered selection of \<open>n\<close> distinct positions is the result of exactly
  one outcome of the generator, whose outcomes are equally likely.
\<close>

theorem sample_aligned:
  assumes "1 \<le> n" and "n \<le> size_rb rb"
  shows "\<exists>S A R S' D.
      sample rb n rs = Inr (S, A, R, S', D)
    \<and> int (length S) = n \<and> int (length A) = n \<and> int (length R) = n
    \<and> int (length S') = n \<and> int (length D) = n
    \<and> valid_draw (length (buffer rb)) n (drawn_positions (length (buffer rb)) n rs)
    \<and> distinct (drawn_positions (length (buffer rb)) n rs)
    \<and> (\<forall>i<nat n. drawn_positions (length (buffer rb)) n rs ! i < length (buffer rb)
          \<and> buffer rb ! (drawn_positions (length (buffer rb)) n rs ! i)
              = (S ! i, A ! i, R ! i, S' ! i, D ! i))
    \<and> bij_betw (drawn_positions (length (buffer rb)) n)
         {src. valid_source (length (buffer rb)) n src}
         {idxs. valid_draw (length (buffer rb)) n idxs}"
proof -
  let ?n = "length (buffer rb)"
  let ?p = "drawn_positions ?n n rs"
  have n: "0 \<le> n" "n \<le> int ?n" using assms by (simp_all add: size_rb_def)
  have v: "valid_draw ?n n ?p" by (rule drawn_positions_valid [OF n])
  then have len: "length ?p = nat n" and dist: "distinct ?p"
    and rng: "\<forall>i<length ?p. ?p ! i < ?n"
    by (auto simp: valid_draw_def list_all_length)
  have batch: "pool_select rs (buffer rb) (nat n) = map (\<lambda>i. buffer rb ! i) ?p"
    by (rule drawn_positions_rows [OF n])
  have ne: "?p \<noteq> []" using len assms(1) by auto
  define S where "S = map (\<lambda>i. fst (buffer rb ! i)) ?p"
  define A where "A = map (\<lambda>i. fst (snd (buffer rb ! i))) ?p"
  define R where "R = map (\<lambda>i. fst (snd (snd (buffer rb ! i)))) ?p"
  define S' where "S' = map (\<lambda>i. fst (snd (snd (snd (buffer rb ! i))))) ?p"
  define D where "D = map (\<lambda>i. snd (snd (snd (snd (buffer rb ! i))))) ?p"
  have smp: "sample rb n rs = Inr (S, A, R, S', D)"
    using n ne
    by (simp add: sample_def random_sample_def batch split_def
          S_def A_def R_def S'_def D_def)
  have lens: "int (length S) = n" "int (length A) = n" "int (length R) = n"
    "int (length S') = n" "int (length D) = n"
    using len n by (simp_all add: S_def A_def R_def S'_def D_def)
  have row: "?p ! i < ?n \<and> buffer rb ! (?p ! i) = (S ! i, A ! i, R ! i, S' ! i, D ! i)"
    if "i < nat n" for i
  proof -
    have "i < length ?p" using that len by simp
    then show ?thesis
      using rng by (simp add: S_def A_def R_def S'_def D_def)
  qed
  have bij: "bij_betw (drawn_positions ?n n) {src. valid_source ?n n src}
               {idxs. valid_draw ?n n idxs}"
    by (rule drawn_positions_bij [OF n])
  show ?thesis
    apply (rule exI [of _ S], rule exI [of _ A], rule exI [of _ R], rule exI [of _ S'],
           rule exI [of _ D])
    using smp lens v dist row bij by simp
qed

theorem sample_aligned_witness:
  "(1::int) \<le> 2 \<and> 2 \<le> size_rb example_buffer
   \<and> drawn_positions (length (buffer example_buffer)) 2 [1, 0] = [1, 0]
   \<and> drawn_positions (length (buffer example_buffer)) 2 [0, 0] = [0, 1]
   \<and> sample example_buffer 2 [1, 0]
       = Inr ([[0], [0]], [[0], [0]], [5, 1], [[0], [0]], [True, False])
   \<and> sample example_buffer 2 [0, 0]
       = Inr ([[0], [0]], [[0], [0]], [1, 5], [[0], [0]], [False, True])
   \<and> valid_draw (length (buffer example_buffer)) 2
        (drawn_positions (length (buffer example_buffer)) 2 [0, 0])
   \<and> bij_betw (drawn_positions (length (buffer example_buffer)) 2)
        {src. valid_source (length (buffer example_buffer)) 2 src}
        {idxs. valid_draw (length (buffer example_buffer)) 2 idxs}"
proof -
  have h1: "(1::int) \<le> 2" by simp
  have h2: "2 \<le> size_rb example_buffer" by (simp add: size_rb_def example_buffer_def)
  have p: "drawn_positions (length (buffer example_buffer)) 2 [1, 0] = [1, 0]"
    "drawn_positions (length (buffer example_buffer)) 2 [0, 0] = [0, 1]"
    by (simp_all add: drawn_positions_def example_buffer_def numeral_2_eq_2 upt_rec)
  have s: "sample example_buffer 2 [1, 0]
       = Inr ([[0], [0]], [[0], [0]], [5, 1], [[0], [0]], [True, False])"
    "sample example_buffer 2 [0, 0]
       = Inr ([[0], [0]], [[0], [0]], [1, 5], [[0], [0]], [False, True])"
    by (simp_all add: sample_def random_sample_def example_buffer_def numeral_2_eq_2)
  from sample_aligned [OF h1 h2, of "[0, 0]"]
  have v: "valid_draw (length (buffer example_buffer)) 2
        (drawn_positions (length (buffer example_buffer)) 2 [0, 0])"
    and b: "bij_betw (drawn_positions (length (buffer example_buffer)) 2)
        {src. valid_source (length (buffer example_buffer)) 2 src}
        {idxs. valid_draw (length (buffer example_buffer)) 2 idxs}"
    by blast+
  show ?thesis
    by (intro conjI h1 h2 p s v b)
qed

text \<open>
  With \<open>n = 0\<close> the store is large enough and the sample is empty, but the unpacking of
  \<open>zip(*batch)\<close> raises.
\<close>

theorem sample_zero_counterexample:
  "0 \<le> size_rb example_buffer
   \<and> sample example_buffer 0 [] = Inl UnpackExpectedFive"
  by (simp add: size_rb_def example_buffer_def sample_def random_sample_def)

section \<open>The Learning Step\<close>

subsection \<open>What a completed call of \<open>train\<close> has done\<close>

lemma all_rows_Inr:
  "all_rows xs = Inr vs \<Longrightarrow> length vs = length xs \<and> (\<forall>i<length xs. xs ! i = Inr (vs ! i))"
proof (induction xs arbitrary: vs)
  case Nil
  then show ?case by simp
next
  case (Cons x xs)
  then show ?case
    by (auto split: sum.splits simp: nth_Cons split: nat.splits)
qed

lemma all_rows_Inl: "all_rows xs = Inl e \<Longrightarrow> Inl e \<in> set xs"
  by (induction xs) (auto split: sum.splits)

lemma all_rows_set:
  "all_rows xs = Inr vs \<Longrightarrow> v \<in> set vs \<Longrightarrow> Inr v \<in> set xs"
  by (induction xs arbitrary: vs) (auto split: sum.splits)

lemma next_actions_Inr:
  assumes "next_actions h f z A S' = Inr na" "length A = length S'"
  shows "length na = length A
         \<and> (\<forall>i<length A. smoothed_next_action h f (z i) (A ! i) (S' ! i) = Inr (na ! i))"
  using all_rows_Inr [OF assms(1) [unfolded next_actions_def]] assms(2)
  by (auto simp: next_actions_def)

lemma compute_target_Q_nth:
  assumes "length S' = n" "length na = n" "length R = n" "length D = n" "i < n"
  shows "length (compute_target_Q g c S' na R D) = n
     \<and> compute_target_Q g c S' na R D ! i
       = R ! i + (1 - of_bool (D ! i)) * g * min (fst (c (S' ! i) (na ! i))) (snd (c (S' ! i) (na ! i)))"
  using assms by (simp add: compute_target_Q_def split_def)

lemma train_Inr:
  assumes "train N idxs z ag = Inr (ag', ev)"
  shows "\<exists>S A R S' D na.
      sample (replay_buffer ag) (batch_size (hyper ag)) idxs = Inr (S, A, R, S', D)
    \<and> next_actions (hyper ag) (actor_forward N (actor_target ag)) z A S' = Inr na
    \<and> policy_freq (hyper ag) \<noteq> 0
    \<and> (let tq = compute_target_Q (discount (hyper ag)) (critic_forward N (critic_target ag)) S' na R D;
            cs = optimizer_step N (critic_optimizer ag) (critic_loss N S A tq) (critic ag)
        in critic ag' = snd cs \<and> critic_optimizer ag' = fst cs
           \<and> total_it ag' = total_it ag + 1 \<and> hyper ag' = hyper ag
           \<and> replay_buffer ag' = replay_buffer ag
           \<and> (if total_it ag mod policy_freq (hyper ag) = 0
               then (let as = optimizer_step N (actor_optimizer ag) (actor_loss N (snd cs) S) (actor ag)
                     in actor ag' = snd as \<and> actor_optimizer ag' = fst as
                        \<and> soft_update (tau (hyper ag)) (snd cs) (critic_target ag) = Inr (critic_target ag')
                        \<and> soft_update (tau (hyper ag)) (snd as) (actor_target ag) = Inr (actor_target ag')
                        \<and> ev = [CriticStep tq, ActorStep, SyncCriticTarget, SyncActorTarget])
               else actor ag' = actor ag \<and> actor_optimizer ag' = actor_optimizer ag
                    \<and> critic_target ag' = critic_target ag \<and> actor_target ag' = actor_target ag
                    \<and> ev = [CriticStep tq]))"
  using assms unfolding train_def Let_def
  by (auto split: sum.splits prod.splits if_splits)

lemma train_events:
  assumes "train N idxs z ag = Inr (ag', ev)"
  shows "policy_freq (hyper ag) \<noteq> 0 \<and> total_it ag' = total_it ag + 1 \<and> hyper ag' = hyper ag
    \<and> (\<exists>tq. hd ev = CriticStep tq \<and> ev \<noteq> [])
    \<and> tl ev = (if total_it ag mod policy_freq (hyper ag) = 0
               then [ActorStep, SyncCriticTarget, SyncActorTarget] else [])"
  using train_Inr [OF assms] by (auto simp: Let_def split: if_splits)

subsection \<open>The learning target\<close>

text \<open>
  C1. In every Learning Step that completes, the critic is stepped against the target
  \<open>reward + (1 - done) * discount * min(target_Q1, target_Q2)\<close>, row by row, the two
  values being the target critic's outputs on the row's next state and smoothed next
  action: a terminal row's target is its reward, a non-terminal row's target has the
  whole discounted bootstrap.
\<close>

theorem train_target_Q:
  assumes "train N idxs z ag = Inr (ag', ev)"
  shows "\<exists>S A R S' D na tq.
      sample (replay_buffer ag) (batch_size (hyper ag)) idxs = Inr (S, A, R, S', D)
    \<and> next_actions (hyper ag) (actor_forward N (actor_target ag)) z A S' = Inr na
    \<and> hd ev = CriticStep tq
    \<and> critic ag' = snd (optimizer_step N (critic_optimizer ag) (critic_loss N S A tq) (critic ag))
    \<and> length tq = length R
    \<and> (\<forall>i<length R.
          tq ! i = R ! i + (1 - of_bool (D ! i)) * discount (hyper ag)
                     * min (fst (critic_forward N (critic_target ag) (S' ! i) (na ! i)))
                           (snd (critic_forward N (critic_target ag) (S' ! i) (na ! i)))
        \<and> (D ! i \<longrightarrow> tq ! i = R ! i)
        \<and> (\<not> D ! i \<longrightarrow>
             tq ! i = R ! i + discount (hyper ag)
                        * min (fst (critic_forward N (critic_target ag) (S' ! i) (na ! i)))
                              (snd (critic_forward N (critic_target ag) (S' ! i) (na ! i)))))"
proof -
  from train_Inr [OF assms] obtain S A R S' D na where
    smp: "sample (replay_buffer ag) (batch_size (hyper ag)) idxs = Inr (S, A, R, S', D)"
    and na: "next_actions (hyper ag) (actor_forward N (actor_target ag)) z A S' = Inr na"
    and rest: "let tq = compute_target_Q (discount (hyper ag)) (critic_forward N (critic_target ag)) S' na R D;
            cs = optimizer_step N (critic_optimizer ag) (critic_loss N S A tq) (critic ag)
        in critic ag' = snd cs \<and> critic_optimizer ag' = fst cs
           \<and> total_it ag' = total_it ag + 1 \<and> hyper ag' = hyper ag
           \<and> replay_buffer ag' = replay_buffer ag
           \<and> (if total_it ag mod policy_freq (hyper ag) = 0
               then (let as = optimizer_step N (actor_optimizer ag) (actor_loss N (snd cs) S) (actor ag)
                     in actor ag' = snd as \<and> actor_optimizer ag' = fst as
                        \<and> soft_update (tau (hyper ag)) (snd cs) (critic_target ag) = Inr (critic_target ag')
                        \<and> soft_update (tau (hyper ag)) (snd as) (actor_target ag) = Inr (actor_target ag')
                        \<and> ev = [CriticStep tq, ActorStep, SyncCriticTarget, SyncActorTarget])
               else actor ag' = actor ag \<and> actor_optimizer ag' = actor_optimizer ag
                    \<and> critic_target ag' = critic_target ag \<and> actor_target ag' = actor_target ag
                    \<and> ev = [CriticStep tq])"
    by blast
  define tq where "tq = compute_target_Q (discount (hyper ag)) (critic_forward N (critic_target ag)) S' na R D"
  define B where "B = nat (batch_size (hyper ag))"
  from sample_Inr [OF smp] have len: "length S = B" "length A = B"
    "length R = B" "length S' = B" "length D = B"
    by (simp_all add: B_def)
  from next_actions_Inr [OF na] len have lna: "length na = B" by simp
  have hd: "hd ev = CriticStep tq"
    using rest by (auto simp: Let_def tq_def split: if_splits)
  have cr: "critic ag' = snd (optimizer_step N (critic_optimizer ag) (critic_loss N S A tq) (critic ag))"
    using rest by (simp add: Let_def tq_def)
  have ltq: "length tq = length R"
    using len lna by (simp add: tq_def compute_target_Q_def)
  have nth: "tq ! i = R ! i + (1 - of_bool (D ! i)) * discount (hyper ag)
                     * min (fst (critic_forward N (critic_target ag) (S' ! i) (na ! i)))
                           (snd (critic_forward N (critic_target ag) (S' ! i) (na ! i)))"
    if "i < length R" for i
    using compute_target_Q_nth [of S' B na R D i] len lna that
    by (simp add: tq_def)
  show ?thesis
    apply (rule exI [of _ S], rule exI [of _ A], rule exI [of _ R], rule exI [of _ S'],
           rule exI [of _ D], rule exI [of _ na], rule exI [of _ tq])
    using smp na hd cr ltq nth by simp
qed

theorem train_target_Q_witness:
  "train example_networks [0, 1] no_noise example_agent
     = Inr (example_agent_trained,
            [CriticStep [149 / 50, 5], ActorStep, SyncCriticTarget, SyncActorTarget])
   \<and> (\<exists>S A R S' D na tq.
      sample (replay_buffer example_agent) (batch_size (hyper example_agent)) [0, 1]
        = Inr (S, A, R, S', D)
    \<and> next_actions (hyper example_agent)
         (actor_forward example_networks (actor_target example_agent)) no_noise A S' = Inr na
    \<and> hd [CriticStep [149 / 50, 5], ActorStep, SyncCriticTarget, SyncActorTarget] = CriticStep tq
    \<and> critic example_agent_trained
        = snd (optimizer_step example_networks (critic_optimizer example_agent)
                 (critic_loss example_networks S A tq) (critic example_agent))
    \<and> length tq = length R
    \<and> (\<forall>i<length R.
          tq ! i = R ! i + (1 - of_bool (D ! i)) * discount (hyper example_agent)
                     * min (fst (critic_forward example_networks (critic_target example_agent) (S' ! i) (na ! i)))
                           (snd (critic_forward example_networks (critic_target example_agent) (S' ! i) (na ! i)))
        \<and> (D ! i \<longrightarrow> tq ! i = R ! i)
        \<and> (\<not> D ! i \<longrightarrow>
             tq ! i = R ! i + discount (hyper example_agent)
                        * min (fst (critic_forward example_networks (critic_target example_agent) (S' ! i) (na ! i)))
                              (snd (critic_forward example_networks (critic_target example_agent) (S' ! i) (na ! i))))))"
  by (rule conjI [OF example_train train_target_Q [OF example_train]])

subsection \<open>The cadence of the delayed updates\<close>

lemma train_run_events:
  "train_run N calls ag = Inr (ag', evs) \<Longrightarrow>
   length evs = length calls \<and> total_it ag' = total_it ag + int (length calls)
   \<and> hyper ag' = hyper ag
   \<and> (\<forall>i<length calls.
         (\<exists>tq. hd (evs ! i) = CriticStep tq \<and> evs ! i \<noteq> [])
       \<and> tl (evs ! i) = (if (total_it ag + int i) mod policy_freq (hyper ag) = 0
                          then [ActorStep, SyncCriticTarget, SyncActorTarget] else []))"
proof (induction calls arbitrary: ag evs)
  case Nil
  then show ?case by simp
next
  case (Cons c calls)
  obtain rb idxs z where c: "c = (rb, idxs, z)" by (cases c) auto
  from Cons.prems obtain ag1 ev evs1 where
    t: "train N idxs z (ag\<lparr>replay_buffer := rb\<rparr>) = Inr (ag1, ev)"
    and r: "train_run N calls ag1 = Inr (ag', evs1)"
    and e: "evs = ev # evs1"
    by (auto simp: c split: sum.splits)
  note te = train_events [OF t]
  note ih = Cons.IH [OF r]
  have tot: "total_it ag1 = total_it ag + 1" and hy: "hyper ag1 = hyper ag"
    using te by simp_all
  show ?case
  proof (intro conjI allI impI)
    show "length evs = length (c # calls)" using ih e by simp
    show "total_it ag' = total_it ag + int (length (c # calls))" using ih tot by simp
    show "hyper ag' = hyper ag" using ih hy by simp
  next
    fix i assume i: "i < length (c # calls)"
    show "\<exists>tq. hd (evs ! i) = CriticStep tq \<and> evs ! i \<noteq> []"
    proof (cases i)
      case 0
      then show ?thesis using te e by simp
    next
      case (Suc k)
      then show ?thesis using ih i e by simp
    qed
    show "tl (evs ! i) = (if (total_it ag + int i) mod policy_freq (hyper ag) = 0
                          then [ActorStep, SyncCriticTarget, SyncActorTarget] else [])"
    proof (cases i)
      case 0
      then show ?thesis using te e by simp
    next
      case (Suc k)
      then have "k < length calls" using i by simp
      with ih have "tl (evs1 ! k) = (if (total_it ag1 + int k) mod policy_freq (hyper ag1) = 0
                          then [ActorStep, SyncCriticTarget, SyncActorTarget] else [])"
        by blast
      moreover have "total_it ag1 + int k = total_it ag + int i"
        using tot Suc by simp
      ultimately show ?thesis using e Suc hy by simp
    qed
  qed
qed

lemma count_multiples:
  assumes "0 < f"
  shows "length (filter (\<lambda>i. int i mod f = 0) [0..<n]) = nat ((int n + f - 1) div f)"
proof (induction n)
  case 0
  then show ?case using assms by simp
next
  case (Suc n)
  have step: "(int (Suc n) + f - 1) div f = (int n + f - 1) div f + (if int n mod f = 0 then 1 else 0)"
  proof -
    define q r where "q = int n div f" and "r = int n mod f"
    have n: "int n = f * q + r" and r: "0 \<le> r" "r < f"
      using assms by (simp_all add: q_def r_def)
    have "int (Suc n) + f - 1 = f * (q + 1) + r" using n by (simp add: algebra_simps)
    then have a: "(int (Suc n) + f - 1) div f = q + 1"
      using r by (rule int_div_pos_eq)
    have b: "(int n + f - 1) div f = q + (if r = 0 then 0 else 1)"
    proof (cases "r = 0")
      case True
      then have "int n + f - 1 = f * q + (f - 1)" using n by simp
      moreover have "0 \<le> f - 1" "f - 1 < f" using assms by simp_all
      ultimately have "(int n + f - 1) div f = q" by (rule int_div_pos_eq)
      then show ?thesis using True by simp
    next
      case False
      have "int n + f - 1 = f * (q + 1) + (r - 1)" using n by (simp add: algebra_simps)
      moreover have "0 \<le> r - 1" "r - 1 < f" using False r by simp_all
      ultimately have "(int n + f - 1) div f = q + 1" by (rule int_div_pos_eq)
      then show ?thesis using False by simp
    qed
    show ?thesis using a b by (simp add: r_def)
  qed
  have nn: "0 \<le> (int n + f - 1) div f"
    using assms by (simp add: pos_imp_zdiv_nonneg_iff)
  show ?case
    using Suc step nn by (simp add: nat_add_distrib)
qed

text \<open>
  C2 (amended). In a run of \<open>n\<close> Learning Steps from \<open>total_it = 0\<close> with
  \<open>policy_freq \<ge> 1\<close>, every step updates the critic; the policy and the two target
  networks are updated in the steps whose index (the value of \<open>total_it\<close> when the step
  starts) is a multiple of \<open>policy_freq\<close> and in no other, which are
  \<open>\<lceil>n / policy_freq\<rceil>\<close> of the steps.
\<close>

theorem delayed_update_cadence:
  assumes "train_run N calls ag = Inr (ag', evs)"
    and "total_it ag = 0"
    and "0 < policy_freq (hyper ag)"
  shows "length evs = length calls
    \<and> total_it ag' = int (length calls)
    \<and> (\<forall>i<length calls.
          (\<exists>tq. hd (evs ! i) = CriticStep tq)
        \<and> (ActorStep \<in> set (evs ! i) \<longleftrightarrow> int i mod policy_freq (hyper ag) = 0)
        \<and> (SyncCriticTarget \<in> set (evs ! i) \<longleftrightarrow> int i mod policy_freq (hyper ag) = 0)
        \<and> (SyncActorTarget \<in> set (evs ! i) \<longleftrightarrow> int i mod policy_freq (hyper ag) = 0))
    \<and> policy_updates evs
        = nat ((int (length calls) + policy_freq (hyper ag) - 1) div policy_freq (hyper ag))"
proof -
  let ?f = "policy_freq (hyper ag)"
  note ev = train_run_events [OF assms(1)]
  have len: "length evs = length calls" using ev by simp
  have shape: "\<exists>tq. evs ! i = CriticStep tq #
                 (if int i mod ?f = 0 then [ActorStep, SyncCriticTarget, SyncActorTarget] else [])"
    if "i < length calls" for i
  proof -
    from ev that obtain tq where "hd (evs ! i) = CriticStep tq" "evs ! i \<noteq> []"
      and "tl (evs ! i) = (if (total_it ag + int i) mod ?f = 0
                           then [ActorStep, SyncCriticTarget, SyncActorTarget] else [])"
      by blast
    then have "evs ! i = CriticStep tq #
                 (if int i mod ?f = 0 then [ActorStep, SyncCriticTarget, SyncActorTarget] else [])"
      using assms(2) by (cases "evs ! i") auto
    then show ?thesis by blast
  qed
  have mem: "ActorStep \<in> set (evs ! i) \<longleftrightarrow> int i mod ?f = 0"
    "SyncCriticTarget \<in> set (evs ! i) \<longleftrightarrow> int i mod ?f = 0"
    "SyncActorTarget \<in> set (evs ! i) \<longleftrightarrow> int i mod ?f = 0"
    "\<exists>tq. hd (evs ! i) = CriticStep tq"
    if "i < length calls" for i
    using shape [OF that] by auto
  have "evs = map (\<lambda>i. evs ! i) [0..<length calls]"
    using map_nth [of evs] len by simp
  then have "policy_updates evs
      = length (filter (\<lambda>ev. ActorStep \<in> set ev) (map (\<lambda>i. evs ! i) [0..<length calls]))"
    by (simp add: policy_updates_def)
  also have "\<dots> = length (filter (\<lambda>i. ActorStep \<in> set (evs ! i)) [0..<length calls])"
    by (simp add: filter_map comp_def)
  also have "filter (\<lambda>i. ActorStep \<in> set (evs ! i)) [0..<length calls]
           = filter (\<lambda>i. int i mod ?f = 0) [0..<length calls]"
    by (rule filter_cong) (auto simp: mem)
  finally have cnt: "policy_updates evs = nat ((int (length calls) + ?f - 1) div ?f)"
    using count_multiples [OF assms(3)] by simp
  show ?thesis
    using len ev assms(2) mem cnt by simp
qed

theorem delayed_update_cadence_witness:
  "train_run example_networks [example_call] example_agent
     = Inr (example_agent_trained,
            [[CriticStep [149 / 50, 5], ActorStep, SyncCriticTarget, SyncActorTarget]])
   \<and> total_it example_agent = 0
   \<and> 0 < policy_freq (hyper example_agent)
   \<and> total_it example_agent_trained = 1
   \<and> policy_updates [[CriticStep [149 / 50, 5], ActorStep, SyncCriticTarget, SyncActorTarget]] = 1"
proof -
  have t: "total_it example_agent = 0" and f: "0 < policy_freq (hyper example_agent)"
    by (simp_all add: example_agent_def example_hyper_def)
  have t': "total_it example_agent_trained = 1"
    by (simp add: example_agent_trained_def)
  show ?thesis
    using example_train_run t f t' delayed_update_cadence [OF example_train_run t f]
    by (simp add: policy_updates_def)
qed

text \<open>
  With \<open>policy_freq = 2\<close> a run of one Learning Step updates the policy once, and
  \<open>\<lfloor>1 / 2\<rfloor> = 0\<close>.
\<close>

theorem delayed_update_floor_counterexample:
  "train_run example_networks [example_call] example_agent
     = Inr (example_agent_trained,
            [[CriticStep [149 / 50, 5], ActorStep, SyncCriticTarget, SyncActorTarget]])
   \<and> total_it example_agent = 0
   \<and> policy_updates [[CriticStep [149 / 50, 5], ActorStep, SyncCriticTarget, SyncActorTarget]]
       \<noteq> nat (int (length [example_call]) div policy_freq (hyper example_agent))"
proof -
  have "total_it example_agent = 0" and "policy_freq (hyper example_agent) = 2"
    by (simp_all add: example_agent_def example_hyper_def)
  then show ?thesis
    using example_train_run by (simp add: policy_updates_def)
qed

subsection \<open>Soft synchronisation of the targets\<close>

lemma lerp_copy_same:
  "length p = length tp \<Longrightarrow> lerp_copy t p tp = Inr (map2 (\<lambda>x y. t * x + (1 - t) * y) p tp)"
  by (simp add: lerp_copy_def broadcast_add_def zip_map_map split_def)

lemma soft_update_same:
  "map length live = map length tgt \<Longrightarrow>
   soft_update t live tgt = Inr (map2 (\<lambda>p tp. map2 (\<lambda>x y. t * x + (1 - t) * y) p tp) live tgt)"
proof (induction t live tgt rule: soft_update.induct)
  case (1 t p ps tp tps)
  then show ?case by (simp add: lerp_copy_same)
next
  case (2 t tps)
  then show ?case by simp
next
  case (3 t ps)
  then show ?case by simp
qed

lemma map2_map2_shape:
  "map length xs = map length ys \<Longrightarrow> map length (map2 (\<lambda>p q. map2 f p q) xs ys) = map length ys"
proof (induction xs arbitrary: ys)
  case Nil
  then show ?case by simp
next
  case (Cons x xs)
  then show ?case by (cases ys) auto
qed

lemma map2_map2_nth:
  assumes "map length xs = map length ys" "i < length ys" "j < length (ys ! i)"
  shows "map2 (\<lambda>p q. map2 f p q) xs ys ! i ! j = f (xs ! i ! j) (ys ! i ! j)"
proof -
  have l: "length xs = length ys" using assms(1) by (metis length_map)
  have "length (xs ! i) = length (ys ! i)"
    using assms(1,2) l by (metis nth_map)
  then show ?thesis using assms l by simp
qed

lemma soft_updates_closed:
  "map length live = map length tgt \<Longrightarrow>
   soft_updates n t live tgt
     = Inr (map2 (\<lambda>p tp. map2 (\<lambda>a b. a - (1 - t) ^ n * (a - b)) p tp) live tgt)"
proof (induction n arbitrary: tgt)
  case 0
  have "map2 (\<lambda>p tp. map2 (\<lambda>a b. b) p tp) live tgt = tgt"
    using "0"
  proof (induction live arbitrary: tgt)
    case Nil
    then show ?case by simp
  next
    case (Cons p live)
    then obtain tp tps where t: "tgt = tp # tps" by (cases tgt) auto
    have "map2 (\<lambda>a b. b) p tp = tp"
      using Cons.prems t by (auto intro!: nth_equalityI)
    then show ?case using Cons t by simp
  qed
  then show ?case by simp
next
  case (Suc n)
  let ?u = "map2 (\<lambda>p tp. map2 (\<lambda>x y. t * x + (1 - t) * y) p tp) live tgt"
  have "map length ?u = map length tgt"
    by (rule map2_map2_shape [OF Suc.prems])
  then have sh: "map length live = map length ?u"
    using Suc.prems by (simp only:)
  have "soft_updates (Suc n) t live tgt = soft_updates n t live ?u"
    by (simp add: soft_update_same [OF Suc.prems])
  also have "\<dots> = Inr (map2 (\<lambda>p tp. map2 (\<lambda>a b. a - (1 - t) ^ n * (a - b)) p tp) live ?u)"
    by (rule Suc.IH [OF sh])
  also have "map2 (\<lambda>p tp. map2 (\<lambda>a b. a - (1 - t) ^ n * (a - b)) p tp) live ?u
           = map2 (\<lambda>p tp. map2 (\<lambda>a b. a - (1 - t) ^ Suc n * (a - b)) p tp) live tgt"
  proof (rule nth_equalityI)
    show "length (map2 (\<lambda>p tp. map2 (\<lambda>a b. a - (1 - t) ^ n * (a - b)) p tp) live ?u)
        = length (map2 (\<lambda>p tp. map2 (\<lambda>a b. a - (1 - t) ^ Suc n * (a - b)) p tp) live tgt)"
      by simp
  next
    fix i assume "i < length (map2 (\<lambda>p tp. map2 (\<lambda>a b. a - (1 - t) ^ n * (a - b)) p tp) live ?u)"
    then have i: "i < length live" "i < length tgt" by simp_all
    have li: "length (live ! i) = length (tgt ! i)"
      using Suc.prems i by (metis nth_map)
    show "map2 (\<lambda>p tp. map2 (\<lambda>a b. a - (1 - t) ^ n * (a - b)) p tp) live ?u ! i
        = map2 (\<lambda>p tp. map2 (\<lambda>a b. a - (1 - t) ^ Suc n * (a - b)) p tp) live tgt ! i"
      using i li by (auto intro!: nth_equalityI simp: algebra_simps)
  qed
  finally show ?case .
qed

lemma polyak_step:
  fixes a b t :: real
  assumes "0 < t" "t < 1" "a \<noteq> b"
  shows "\<bar>a - (a - (1 - t) ^ Suc n * (a - b))\<bar> < \<bar>a - (a - (1 - t) ^ n * (a - b))\<bar>
       \<and> (b < a \<longrightarrow> a - (1 - t) ^ n * (a - b) < a - (1 - t) ^ Suc n * (a - b)
                    \<and> a - (1 - t) ^ Suc n * (a - b) < a)
       \<and> (a < b \<longrightarrow> a < a - (1 - t) ^ Suc n * (a - b)
                    \<and> a - (1 - t) ^ Suc n * (a - b) < a - (1 - t) ^ n * (a - b))"
proof -
  define c where "c = (1 - t) ^ n"
  define e where "e = c * (a - b)"
  have c: "0 < c" using assms by (simp add: c_def)
  have s: "(1 - t) ^ Suc n * (a - b) = (1 - t) * e" "(1 - t) ^ n * (a - b) = e"
    by (simp_all add: c_def e_def)
  have t: "0 < 1 - t" "1 - t < 1" using assms by simp_all
  have abs: "\<bar>(1 - t) * e\<bar> < \<bar>e\<bar>"
  proof -
    have "e \<noteq> 0" using c assms(3) by (simp add: e_def)
    then have "0 < \<bar>e\<bar>" by simp
    then have "(1 - t) * \<bar>e\<bar> < 1 * \<bar>e\<bar>" using t by (simp only: mult_strict_right_mono)
    then show ?thesis using t by (simp add: abs_mult)
  qed
  have pos: "(1 - t) * e < e" "0 < (1 - t) * e" if "b < a"
  proof -
    have e: "0 < e" using that c by (simp add: e_def)
    show "(1 - t) * e < e" using e t by simp
    show "0 < (1 - t) * e" using e t by simp
  qed
  have neg: "e < (1 - t) * e" "(1 - t) * e < 0" if "a < b"
  proof -
    have e: "e < 0" using that c by (simp add: e_def mult_pos_neg)
    show "e < (1 - t) * e" using e t by simp
    show "(1 - t) * e < 0" using e t by (simp add: mult_pos_neg)
  qed
  show ?thesis
    unfolding s using abs pos neg by auto
qed

text \<open>
  C5. When \<open>train\<close> synchronises the targets (the live and the target network of each
  pair having the same parameter shapes), every element of every parameter tensor of
  both target networks becomes \<open>\<tau> * live + (1 - \<tau>) * target\<close>, the live value being the
  one after this call's optimizer steps. For \<open>0 < \<tau> < 1\<close>, repeating the update against a
  fixed live network moves every target element that differs from its live element
  strictly towards it, never reaching or passing it.
\<close>

theorem soft_target_sync:
  assumes "train N idxs z ag = Inr (ag', ev)"
    and "total_it ag mod policy_freq (hyper ag) = 0"
    and "map length (critic ag') = map length (critic_target ag)"
    and "map length (actor ag') = map length (actor_target ag)"
  shows "map length (critic_target ag') = map length (critic_target ag)
    \<and> map length (actor_target ag') = map length (actor_target ag)
    \<and> (\<forall>i j. i < length (critic_target ag) \<and> j < length (critic_target ag ! i) \<longrightarrow>
          critic_target ag' ! i ! j
            = tau (hyper ag) * critic ag' ! i ! j + (1 - tau (hyper ag)) * critic_target ag ! i ! j)
    \<and> (\<forall>i j. i < length (actor_target ag) \<and> j < length (actor_target ag ! i) \<longrightarrow>
          actor_target ag' ! i ! j
            = tau (hyper ag) * actor ag' ! i ! j + (1 - tau (hyper ag)) * actor_target ag ! i ! j)
    \<and> (0 < t \<and> t < 1 \<and> map length live = map length tgt \<longrightarrow>
         (\<exists>u u'. soft_updates n t live tgt = Inr u \<and> soft_update t live u = Inr u'
            \<and> soft_updates (Suc n) t live tgt = Inr u'
            \<and> (\<forall>i j. i < length tgt \<and> j < length (tgt ! i) \<and> live ! i ! j \<noteq> tgt ! i ! j \<longrightarrow>
                  \<bar>live ! i ! j - u' ! i ! j\<bar> < \<bar>live ! i ! j - u ! i ! j\<bar>
                \<and> (tgt ! i ! j < live ! i ! j \<longrightarrow>
                       u ! i ! j < u' ! i ! j \<and> u' ! i ! j < live ! i ! j)
                \<and> (live ! i ! j < tgt ! i ! j \<longrightarrow>
                       live ! i ! j < u' ! i ! j \<and> u' ! i ! j < u ! i ! j))))"
proof -
  let ?\<tau> = "tau (hyper ag)"
  let ?blend = "\<lambda>live tgt. map2 (\<lambda>p tp. map2 (\<lambda>x y. ?\<tau> * x + (1 - ?\<tau>) * y) p tp) live tgt"
  from train_Inr [OF assms(1)] assms(2)
  have ct: "soft_update ?\<tau> (critic ag') (critic_target ag) = Inr (critic_target ag')"
    and at: "soft_update ?\<tau> (actor ag') (actor_target ag) = Inr (actor_target ag')"
    by (auto simp: Let_def)
  have ct': "critic_target ag' = ?blend (critic ag') (critic_target ag)"
    using ct soft_update_same [OF assms(3), of ?\<tau>] by simp
  have at': "actor_target ag' = ?blend (actor ag') (actor_target ag)"
    using at soft_update_same [OF assms(4), of ?\<tau>] by simp
  have sh: "map length (critic_target ag') = map length (critic_target ag)"
    "map length (actor_target ag') = map length (actor_target ag)"
    unfolding ct' at'
    by (rule map2_map2_shape [OF assms(3)], rule map2_map2_shape [OF assms(4)])
  have el: "critic_target ag' ! i ! j
            = ?\<tau> * critic ag' ! i ! j + (1 - ?\<tau>) * critic_target ag ! i ! j"
    if "i < length (critic_target ag)" "j < length (critic_target ag ! i)" for i j
    unfolding ct' by (rule map2_map2_nth [OF assms(3) that])
  have el': "actor_target ag' ! i ! j
            = ?\<tau> * actor ag' ! i ! j + (1 - ?\<tau>) * actor_target ag ! i ! j"
    if "i < length (actor_target ag)" "j < length (actor_target ag ! i)" for i j
    unfolding at' by (rule map2_map2_nth [OF assms(4) that])
  have rep: "\<exists>u u'. soft_updates n t live tgt = Inr u \<and> soft_update t live u = Inr u'
            \<and> soft_updates (Suc n) t live tgt = Inr u'
            \<and> (\<forall>i j. i < length tgt \<and> j < length (tgt ! i) \<and> live ! i ! j \<noteq> tgt ! i ! j \<longrightarrow>
                  \<bar>live ! i ! j - u' ! i ! j\<bar> < \<bar>live ! i ! j - u ! i ! j\<bar>
                \<and> (tgt ! i ! j < live ! i ! j \<longrightarrow>
                       u ! i ! j < u' ! i ! j \<and> u' ! i ! j < live ! i ! j)
                \<and> (live ! i ! j < tgt ! i ! j \<longrightarrow>
                       live ! i ! j < u' ! i ! j \<and> u' ! i ! j < u ! i ! j))"
    if t: "0 < t" "t < 1" and shp: "map length live = map length tgt"
  proof -
    let ?c = "\<lambda>k. map2 (\<lambda>p tp. map2 (\<lambda>a b. a - (1 - t) ^ k * (a - b)) p tp) live tgt"
    have u: "soft_updates n t live tgt = Inr (?c n)"
      and u': "soft_updates (Suc n) t live tgt = Inr (?c (Suc n))"
      by (rule soft_updates_closed [OF shp])+
    have shu: "map length live = map length (?c n)"
      using map2_map2_shape [OF shp, of "\<lambda>a b. a - (1 - t) ^ n * (a - b)"] shp by (simp only:)
    have one: "soft_update t live (?c n) = Inr (?c (Suc n))"
    proof -
      have "soft_update t live (?c n)
              = Inr (map2 (\<lambda>p tp. map2 (\<lambda>x y. t * x + (1 - t) * y) p tp) live (?c n))"
        by (rule soft_update_same [OF shu])
      also have "map2 (\<lambda>p tp. map2 (\<lambda>x y. t * x + (1 - t) * y) p tp) live (?c n) = ?c (Suc n)"
      proof (rule nth_equalityI)
        show "length (map2 (\<lambda>p tp. map2 (\<lambda>x y. t * x + (1 - t) * y) p tp) live (?c n))
                = length (?c (Suc n))"
          by simp
      next
        fix i assume "i < length (map2 (\<lambda>p tp. map2 (\<lambda>x y. t * x + (1 - t) * y) p tp) live (?c n))"
        then have i: "i < length live" "i < length tgt" by simp_all
        have li: "length (live ! i) = length (tgt ! i)"
          using shp i by (metis nth_map)
        show "map2 (\<lambda>p tp. map2 (\<lambda>x y. t * x + (1 - t) * y) p tp) live (?c n) ! i = ?c (Suc n) ! i"
          using i li by (auto intro!: nth_equalityI simp: algebra_simps)
      qed
      finally show ?thesis .
    qed
    have mono: "\<bar>live ! i ! j - ?c (Suc n) ! i ! j\<bar> < \<bar>live ! i ! j - ?c n ! i ! j\<bar>
                \<and> (tgt ! i ! j < live ! i ! j \<longrightarrow>
                       ?c n ! i ! j < ?c (Suc n) ! i ! j \<and> ?c (Suc n) ! i ! j < live ! i ! j)
                \<and> (live ! i ! j < tgt ! i ! j \<longrightarrow>
                       live ! i ! j < ?c (Suc n) ! i ! j \<and> ?c (Suc n) ! i ! j < ?c n ! i ! j)"
      if "i < length tgt" "j < length (tgt ! i)" "live ! i ! j \<noteq> tgt ! i ! j" for i j
      unfolding map2_map2_nth [OF shp that(1,2)]
      by (rule polyak_step [OF t that(3)])
    show ?thesis
      using u u' one mono by blast
  qed
  show ?thesis
    using sh el el' rep by blast
qed

theorem soft_target_sync_witness:
  "train example_networks [0, 1] no_noise example_agent
     = Inr (example_agent_trained,
            [CriticStep [149 / 50, 5], ActorStep, SyncCriticTarget, SyncActorTarget])
   \<and> total_it example_agent mod policy_freq (hyper example_agent) = 0
   \<and> map length (critic example_agent_trained) = map length (critic_target example_agent)
   \<and> map length (actor example_agent_trained) = map length (actor_target example_agent)
   \<and> critic_target example_agent_trained ! 0 ! 0
       = tau (hyper example_agent) * critic example_agent_trained ! 0 ! 0
         + (1 - tau (hyper example_agent)) * critic_target example_agent ! 0 ! 0
   \<and> actor_target example_agent_trained ! 0 ! 0
       = tau (hyper example_agent) * actor example_agent_trained ! 0 ! 0
         + (1 - tau (hyper example_agent)) * actor_target example_agent ! 0 ! 0
   \<and> (0::real) < 1 / 2 \<and> (1 / 2 :: real) < 1 \<and> map length [[2::real]] = map length [[4::real]]
   \<and> (\<exists>u u'. soft_updates 1 (1 / 2) [[2]] [[4]] = Inr u \<and> soft_update (1 / 2) [[2]] u = Inr u'
         \<and> [[2]] ! 0 ! 0 < u' ! 0 ! 0 \<and> u' ! 0 ! 0 < u ! 0 ! 0)"
proof -
  have h2: "total_it example_agent mod policy_freq (hyper example_agent) = 0"
    by (simp add: example_agent_def example_hyper_def)
  have h3: "map length (critic example_agent_trained) = map length (critic_target example_agent)"
    and h4: "map length (actor example_agent_trained) = map length (actor_target example_agent)"
    by (simp_all add: example_agent_trained_def example_agent_def)
  have t: "(0::real) < 1 / 2 \<and> (1 / 2 :: real) < 1 \<and> map length [[2::real]] = map length [[4::real]]"
    by simp
  note inst = soft_target_sync [OF example_train h2 h3 h4, of "1 / 2" "[[2]]" "[[4]]" 1]
  have idx: "0 < length (critic_target example_agent) \<and> 0 < length (critic_target example_agent ! 0)"
    "0 < length (actor_target example_agent) \<and> 0 < length (actor_target example_agent ! 0)"
    "0 < length [[4::real]] \<and> 0 < length ([[4::real]] ! 0) \<and> [[2::real]] ! 0 ! 0 \<noteq> [[4]] ! 0 ! 0"
    "[[2::real]] ! 0 ! 0 < [[4]] ! 0 ! 0"
    by (simp_all add: example_agent_def)
  from inst idx(1) have c: "critic_target example_agent_trained ! 0 ! 0
       = tau (hyper example_agent) * critic example_agent_trained ! 0 ! 0
         + (1 - tau (hyper example_agent)) * critic_target example_agent ! 0 ! 0"
    by blast
  from inst idx(2) have a: "actor_target example_agent_trained ! 0 ! 0
       = tau (hyper example_agent) * actor example_agent_trained ! 0 ! 0
         + (1 - tau (hyper example_agent)) * actor_target example_agent ! 0 ! 0"
    by blast
  from inst t obtain u u' where u: "soft_updates 1 (1 / 2) [[2]] [[4]] = Inr u"
    "soft_update (1 / 2) [[2]] u = Inr u'"
    and m: "\<forall>i j. i < length [[4::real]] \<and> j < length ([[4::real]] ! i) \<and> [[2::real]] ! i ! j \<noteq> [[4]] ! i ! j \<longrightarrow>
                  \<bar>[[2]] ! i ! j - u' ! i ! j\<bar> < \<bar>[[2]] ! i ! j - u ! i ! j\<bar>
                \<and> ([[4]] ! i ! j < [[2::real]] ! i ! j \<longrightarrow>
                       u ! i ! j < u' ! i ! j \<and> u' ! i ! j < [[2]] ! i ! j)
                \<and> ([[2::real]] ! i ! j < [[4]] ! i ! j \<longrightarrow>
                       [[2]] ! i ! j < u' ! i ! j \<and> u' ! i ! j < u ! i ! j)"
    by blast
  from m idx(3,4) have "[[2]] ! 0 ! 0 < u' ! 0 ! 0 \<and> u' ! 0 ! 0 < u ! 0 ! 0"
    by blast
  with u have r: "\<exists>u u'. soft_updates 1 (1 / 2) [[2]] [[4]] = Inr u \<and> soft_update (1 / 2) [[2]] u = Inr u'
         \<and> [[2]] ! 0 ! 0 < u' ! 0 ! 0 \<and> u' ! 0 ! 0 < u ! 0 ! 0"
    by blast
  show ?thesis
    by (intro conjI example_train h2 h3 h4 c a r) simp_all
qed

section \<open>Actions\<close>

lemma clip_bounds: "lo \<le> hi \<Longrightarrow> lo \<le> clip lo hi x \<and> clip lo hi x \<le> hi"
  by (simp add: clip_def)

lemma explore_bounds:
  assumes "explore h z a0 = Inr a" "0 \<le> action_high h"
  shows "\<forall>x\<in>set a. - action_high h \<le> x \<and> x \<le> action_high h"
proof -
  from assms(1) obtain v where "a = map (clip (- action_high h) (action_high h)) v"
    by (auto simp: explore_def split: sum.splits)
  then show ?thesis using clip_bounds [of "- action_high h" "action_high h"] assms(2) by auto
qed

lemma smoothed_next_action_bounds:
  assumes "smoothed_next_action h f z a s' = Inr v" "0 \<le> action_high h"
  shows "\<forall>x\<in>set v. - action_high h \<le> x \<and> x \<le> action_high h"
proof -
  from assms(1) obtain w where "v = map (clip (- action_high h) (action_high h)) w"
    by (auto simp: smoothed_next_action_def Let_def split: sum.splits)
  then show ?thesis using clip_bounds [of "- action_high h" "action_high h"] assms(2) by auto
qed

lemma next_actions_bounds:
  assumes "next_actions h f zz A S' = Inr na" "0 \<le> action_high h"
  shows "\<forall>row\<in>set na. \<forall>x\<in>set row. - action_high h \<le> x \<and> x \<le> action_high h"
proof
  fix row assume "row \<in> set na"
  with assms(1) have "Inr row \<in> set (map (\<lambda>(i, a, s'). smoothed_next_action h f (zz i) a s')
                                          (zip [0..<length A] (zip A S')))"
    unfolding next_actions_def by (rule all_rows_set)
  then obtain i a s' where "smoothed_next_action h f (zz i) a s' = Inr row"
    by (auto simp: split_def)
  from smoothed_next_action_bounds [OF this assms(2)]
  show "\<forall>x\<in>set row. - action_high h \<le> x \<and> x \<le> action_high h" .
qed

lemma TD3_Actor_bounds:
  assumes "low \<le> high"
  shows "\<forall>x\<in>set (TD3_Actor net low high \<theta> s). low \<le> x \<and> x \<le> high"
  using clip_bounds [OF assms] by (simp add: TD3_Actor_def)

text \<open>
  C4 (amended). The evaluation-mode action is the output of the policy network,
  unchanged, and with the policy network of the specification (clamped to
  \<open>[action_low, action_high]\<close>, \<open>action_low \<le> action_high\<close>) it lies component-wise in
  \<open>[action_low, action_high]\<close>. With \<open>action_high \<ge> 0\<close>, the training-mode action (policy
  output plus exploration noise) and every row of the smoothed target action of the
  Learning Step lie component-wise in \<open>[- action_high, action_high]\<close>, which is
  \<open>[action_low, action_high]\<close> when \<open>action_low = - action_high\<close>.
\<close>

theorem action_bounds:
  "(choose_action N True z ag st = Inr a \<and> 0 \<le> action_high (hyper ag) \<longrightarrow>
      (\<forall>x\<in>set a. - action_high (hyper ag) \<le> x \<and> x \<le> action_high (hyper ag)))
   \<and> choose_action N False z ag st = Inr (actor_forward N (actor ag) st)
   \<and> (next_actions h f zz A S' = Inr na \<and> 0 \<le> action_high h \<longrightarrow>
        (\<forall>row\<in>set na. \<forall>x\<in>set row. - action_high h \<le> x \<and> x \<le> action_high h))
   \<and> (action_low (hyper ag) \<le> action_high (hyper ag) \<longrightarrow>
        (\<exists>b. choose_action (with_TD3_Actor N net (hyper ag)) False z ag st = Inr b
           \<and> (\<forall>x\<in>set b. action_low (hyper ag) \<le> x \<and> x \<le> action_high (hyper ag))))
   \<and> (choose_action N True z ag st = Inr a \<and> 0 \<le> action_high (hyper ag)
        \<and> action_low (hyper ag) = - action_high (hyper ag) \<longrightarrow>
        (\<forall>x\<in>set a. action_low (hyper ag) \<le> x \<and> x \<le> action_high (hyper ag)))
   \<and> (next_actions h f zz A S' = Inr na \<and> 0 \<le> action_high h
        \<and> action_low h = - action_high h \<longrightarrow>
        (\<forall>row\<in>set na. \<forall>x\<in>set row. action_low h \<le> x \<and> x \<le> action_high h))"
proof -
  have tr: "\<forall>x\<in>set a. - action_high (hyper ag) \<le> x \<and> x \<le> action_high (hyper ag)"
    if "choose_action N True z ag st = Inr a" "0 \<le> action_high (hyper ag)"
    using explore_bounds [of "hyper ag" z "select_action N ag st" a] that
    by (simp add: choose_action_def)
  have ev: "choose_action N False z ag st = Inr (actor_forward N (actor ag) st)"
    by (simp add: choose_action_def select_action_def)
  have sm: "\<forall>row\<in>set na. \<forall>x\<in>set row. - action_high h \<le> x \<and> x \<le> action_high h"
    if "next_actions h f zz A S' = Inr na" "0 \<le> action_high h"
    using next_actions_bounds [OF that] .
  have ev': "\<exists>b. choose_action (with_TD3_Actor N net (hyper ag)) False z ag st = Inr b
           \<and> (\<forall>x\<in>set b. action_low (hyper ag) \<le> x \<and> x \<le> action_high (hyper ag))"
    if "action_low (hyper ag) \<le> action_high (hyper ag)"
  proof -
    have "choose_action (with_TD3_Actor N net (hyper ag)) False z ag st
            = Inr (TD3_Actor net (action_low (hyper ag)) (action_high (hyper ag)) (actor ag) st)"
      by (simp add: choose_action_def select_action_def with_TD3_Actor_def)
    then show ?thesis using TD3_Actor_bounds [OF that] by blast
  qed
  have tr': "\<forall>x\<in>set a. action_low (hyper ag) \<le> x \<and> x \<le> action_high (hyper ag)"
    if "choose_action N True z ag st = Inr a" "0 \<le> action_high (hyper ag)"
      "action_low (hyper ag) = - action_high (hyper ag)"
    using tr [OF that(1,2)] that(3) by simp
  have sm': "\<forall>row\<in>set na. \<forall>x\<in>set row. action_low h \<le> x \<and> x \<le> action_high h"
    if "next_actions h f zz A S' = Inr na" "0 \<le> action_high h" "action_low h = - action_high h"
    using sm [OF that(1,2)] that(3) by simp
  show ?thesis
    using tr ev sm ev' tr' sm' by blast
qed

lemma example_eval_wide:
  "choose_action example_networks_wide False unit_draws example_agent [0] = Inr [1]"
  by (simp add: choose_action_def select_action_def example_networks_wide_def with_TD3_Actor_def
        TD3_Actor_def wide_net_def clip_def example_agent_def example_hyper_def)

theorem action_bounds_witness:
  "choose_action example_networks True unit_draws example_agent [0] = Inr [1 / 5]
   \<and> 0 \<le> action_high (hyper example_agent)
   \<and> action_low (hyper example_agent) = - action_high (hyper example_agent)
   \<and> action_low (hyper example_agent) \<le> 1 / 5
   \<and> - action_high (hyper example_agent) \<le> 1 / 5
   \<and> 1 / 5 \<le> action_high (hyper example_agent)
   \<and> choose_action example_networks False unit_draws example_agent [0]
        = Inr (actor_forward example_networks (actor example_agent) [0])
   \<and> next_actions example_hyper (actor_forward example_networks [[3]]) no_noise
        [[0], [0]] [[0], [0]] = Inr [[0], [0]]
   \<and> 0 \<le> action_high example_hyper
   \<and> action_low example_hyper = - action_high example_hyper
   \<and> - action_high example_hyper \<le> 0
   \<and> action_low example_hyper \<le> 0
   \<and> action_low (hyper example_agent) \<le> action_high (hyper example_agent)
   \<and> choose_action (with_TD3_Actor example_networks wide_net (hyper example_agent)) False
        unit_draws example_agent [0] = Inr [1]
   \<and> action_low (hyper example_agent) \<le> 1
   \<and> 1 \<le> action_high (hyper example_agent)"
proof -
  have h: "0 \<le> action_high (hyper example_agent)" "0 \<le> action_high example_hyper"
    "action_low (hyper example_agent) = - action_high (hyper example_agent)"
    "action_low example_hyper = - action_high example_hyper"
    "action_low (hyper example_agent) \<le> action_high (hyper example_agent)"
    by (simp_all add: example_agent_def example_hyper_def)
  note inst = action_bounds [where N = example_networks and z = unit_draws
      and ag = example_agent and st = "[0]" and a = "[1 / 5]" and h = example_hyper
      and f = "actor_forward example_networks [[3]]" and zz = no_noise
      and A = "[[0], [0]]" and S' = "[[0], [0]]" and na = "[[0], [0]]" and net = wide_net]
  have a: "\<forall>x\<in>set [1 / 5]. - action_high (hyper example_agent) \<le> x
                          \<and> x \<le> action_high (hyper example_agent)"
    using inst example_choose h(1) by blast
  have a2: "\<forall>x\<in>set [1 / 5]. action_low (hyper example_agent) \<le> x
                          \<and> x \<le> action_high (hyper example_agent)"
    using inst example_choose h(1,3) by blast
  have b: "\<forall>row\<in>set [[0], [0]]. \<forall>x\<in>set row. - action_high example_hyper \<le> x
                                            \<and> x \<le> action_high example_hyper"
    using inst example_next_actions h(2) by blast
  have b2: "\<forall>row\<in>set [[0], [0]]. \<forall>x\<in>set row. action_low example_hyper \<le> x
                                            \<and> x \<le> action_high example_hyper"
    using inst example_next_actions h(2,4) by blast
  have e: "choose_action example_networks False unit_draws example_agent [0]
        = Inr (actor_forward example_networks (actor example_agent) [0])"
    using inst by blast
  have w: "choose_action (with_TD3_Actor example_networks wide_net (hyper example_agent)) False
        unit_draws example_agent [0] = Inr [1]"
    using example_eval_wide by (simp add: example_networks_wide_def)
  from inst h(5) obtain bb where
    "choose_action (with_TD3_Actor example_networks wide_net (hyper example_agent)) False
        unit_draws example_agent [0] = Inr bb"
    and "\<forall>x\<in>set bb. action_low (hyper example_agent) \<le> x \<and> x \<le> action_high (hyper example_agent)"
    by blast
  with w have c: "action_low (hyper example_agent) \<le> 1" "1 \<le> action_high (hyper example_agent)"
    by simp_all
  have a': "- action_high (hyper example_agent) \<le> 1 / 5" "1 / 5 \<le> action_high (hyper example_agent)"
    "action_low (hyper example_agent) \<le> 1 / 5"
    using a a2 by simp_all
  have b': "- action_high example_hyper \<le> 0" "action_low example_hyper \<le> 0"
    using b b2 by simp_all
  show ?thesis
    by (intro conjI example_choose example_next_actions h a' b' e w c)
qed

text \<open>
  With \<open>action_low = 0\<close> and \<open>action_high = 1\<close> and a policy network clamped to \<open>[0, 1]\<close>,
  a policy output of \<open>0\<close> and a noise draw of \<open>- 1 / 2\<close> give the training-mode action
  \<open>- 1 / 2\<close> and the smoothed target action \<open>- 1 / 2\<close>, both below \<open>action_low\<close>.
\<close>

theorem action_low_counterexample:
  "action_low (hyper example_agent_low0) = 0
   \<and> action_high (hyper example_agent_low0) = 1
   \<and> select_action example_networks_low0 example_agent_low0 [0] = [0]
   \<and> choose_action example_networks_low0 True neg_draws example_agent_low0 [0] = Inr [- 1 / 2]
   \<and> next_actions (hyper example_agent_low0)
        (actor_forward example_networks_low0 (actor_target example_agent_low0)) neg_noise
        [[0]] [[0]] = Inr [[- 1 / 2]]
   \<and> \<not> action_low (hyper example_agent_low0) \<le> - 1 / 2"
  by (simp add: choose_action_def select_action_def explore_def normal_draws_def
        next_actions_def smoothed_next_action_def
        broadcast_add_def clip_def example_networks_low0_def with_TD3_Actor_def TD3_Actor_def
        zero_net_def neg_noise_def example_networks_def example_agent_low0_def
        example_agent_def example_hyper_def neg_draws_def)

section \<open>The episode loop\<close>

subsection \<open>Which errors can arise where\<close>

lemma broadcast_add_Inl: "broadcast_add a b = Inl e \<Longrightarrow> e = ShapeMismatch"
  by (auto simp: broadcast_add_def split: if_splits)

lemma normal_draws_Inl: "normal_draws z s n = Inl e \<Longrightarrow> e = ScaleNegative"
  by (auto simp: normal_draws_def split: if_splits)

lemma smoothed_next_action_Inl:
  "smoothed_next_action h f z a s' = Inl e \<Longrightarrow> e = ScaleNegative \<or> e = ShapeMismatch"
  by (auto simp: smoothed_next_action_def Let_def split: sum.splits
           dest: broadcast_add_Inl normal_draws_Inl)

lemma next_actions_Inl:
  "next_actions h f z A S' = Inl e \<Longrightarrow> e = ScaleNegative \<or> e = ShapeMismatch"
proof -
  assume "next_actions h f z A S' = Inl e"
  then have "Inl e \<in> set (map (\<lambda>(i, a, s'). smoothed_next_action h f (z i) a s')
                              (zip [0..<length A] (zip A S')))"
    unfolding next_actions_def by (rule all_rows_Inl)
  then obtain i a s' where "smoothed_next_action h f (z i) a s' = Inl e"
    by (auto simp: split_def)
  then show ?thesis by (rule smoothed_next_action_Inl)
qed

lemma lerp_copy_Inl: "lerp_copy t p tp = Inl e \<Longrightarrow> e = ShapeMismatch"
  by (auto simp: lerp_copy_def split: sum.splits if_splits dest: broadcast_add_Inl)

lemma soft_update_Inl: "soft_update t ps tps = Inl e \<Longrightarrow> e = ShapeMismatch"
  by (induction t ps tps rule: soft_update.induct)
     (auto split: sum.splits dest: lerp_copy_Inl)

lemma explore_Inl: "explore h z a = Inl e \<Longrightarrow> e = ScaleNegative \<or> e = ShapeMismatch"
  by (auto simp: explore_def split: sum.splits dest: broadcast_add_Inl normal_draws_Inl)

lemma choose_action_Inl:
  "choose_action N tr z ag st = Inl e \<Longrightarrow> e = ScaleNegative \<or> e = ShapeMismatch"
  by (auto simp: choose_action_def Let_def split: if_splits dest: explore_Inl)

lemma train_Inl_sample:
  assumes "train N idxs z ag = Inl SampleLargerOrNegative"
  shows "\<not> (0 \<le> batch_size (hyper ag) \<and> batch_size (hyper ag) \<le> size_rb (replay_buffer ag))"
proof -
  have "sample (replay_buffer ag) (batch_size (hyper ag)) idxs = Inl SampleLargerOrNegative"
    using assms unfolding train_def Let_def
    by (auto split: sum.splits prod.splits if_splits
             dest: next_actions_Inl soft_update_Inl)
  then show ?thesis
    by (auto simp: sample_def random_sample_def size_rb_def split: if_splits sum.splits)
qed

subsection \<open>One iteration\<close>

lemma learn_if_due_Inr:
  assumes "learn_if_due N dr sc ag = Inr ag'"
  shows "hyper ag' = hyper ag \<and> replay_buffer ag' = replay_buffer ag
    \<and> (if batch_size (hyper ag) < size_rb (replay_buffer ag) \<and> sc mod policy_freq (hyper ag) = 0
        then total_it ag' = total_it ag + 1
             \<and> (\<exists>ev. train N (sample_idxs dr) (smooth_z dr) ag = Inr (ag', ev))
        else ag' = ag)"
  using assms train_Inr [of N "sample_idxs dr" "smooth_z dr" ag]
  by (auto simp: learn_if_due_def Let_def split: if_splits sum.splits)

lemma learn_if_due_Inl:
  assumes "learn_if_due N dr sc ag = Inl e"
  shows "batch_size (hyper ag) < size_rb (replay_buffer ag)
    \<and> (e = SampleLargerOrNegative \<longrightarrow> batch_size (hyper ag) < 0)"
  using assms train_Inl_sample [of N "sample_idxs dr" "smooth_z dr" ag]
  by (auto simp: learn_if_due_def split: if_splits sum.splits)

lemma loop_body_Inr:
  assumes "loop_body N env_step tr dr ls = Inr ls'"
  shows "step_count ls' = step_count ls + 1 \<and> hyper (agent ls') = hyper (agent ls)
    \<and> (step_count ls = max_timestep (hyper (agent ls)) - 1 \<longrightarrow> terminated ls')"
  using assms
  by (auto simp: loop_body_def Let_def split: sum.splits prod.splits if_splits
           dest!: learn_if_due_Inr)

lemma loop_body_Inl:
  assumes "loop_body N env_step tr dr ls = Inl SampleLargerOrNegative"
  shows "batch_size (hyper (agent ls)) < 0"
  using assms
  by (auto simp: loop_body_def Let_def split: sum.splits prod.splits if_splits
           dest!: learn_if_due_Inl choose_action_Inl)

lemma loop_body_Inl_sample:
  "0 \<le> batch_size (hyper (agent ls)) \<Longrightarrow>
   loop_body N env_step tr dr ls \<noteq> Inl SampleLargerOrNegative"
  using loop_body_Inl [of N env_step tr dr ls] by auto

lemma loop_body_stores:
  assumes "loop_body N env_step True dr ls = Inr ls'"
    and "0 < maxlen (replay_buffer (agent ls))"
  shows "buffer (replay_buffer (agent ls')) \<noteq> []
    \<and> (\<exists>a r. last (buffer (replay_buffer (agent ls')))
                 = (state ls, a, r, state ls', terminated ls'))"
proof -
  from assms(1) obtain action env' next_state reward et etr ag' where
    st: "env_step (env ls) action = (env', next_state, reward, et, etr)"
    and l: "learn_if_due N dr (step_count ls)
              ((agent ls)\<lparr>replay_buffer :=
                 add (replay_buffer (agent ls)) (state ls) action reward next_state
                   (step_count ls = max_timestep (hyper (agent ls)) - 1 \<or> et)\<rparr>) = Inr ag'"
    and ls': "ls' = ls\<lparr>env := env', state := next_state,
                  terminated := (step_count ls = max_timestep (hyper (agent ls)) - 1 \<or> et),
                  truncated := etr, episode_reward := episode_reward ls + reward,
                  step_count := step_count ls + 1, agent := ag'\<rparr>"
    by (auto simp: loop_body_def Let_def split: sum.splits prod.splits)
  from learn_if_due_Inr [OF l]
  have "replay_buffer ag' = add (replay_buffer (agent ls)) (state ls) action reward next_state
                   (step_count ls = max_timestep (hyper (agent ls)) - 1 \<or> et)"
    by simp
  then show ?thesis
    using add_last [OF assms(2)] ls' by auto
qed

subsection \<open>The guard of the Learning Step\<close>

lemma episode_loop_no_sample_error:
  fixes ls :: "('b, 'a) loop_state"
  assumes "episode_loop N env_step tr rnd ls = Some y"
  shows "0 \<le> batch_size (hyper (agent ls)) \<longrightarrow> y \<noteq> Inl SampleLargerOrNegative"
proof (rule episode_loop.raw_induct
    [where P = "\<lambda>N env_step tr rnd ls y.
                  0 \<le> batch_size (hyper (agent ls)) \<longrightarrow> y \<noteq> Inl SampleLargerOrNegative",
     OF _ assms])
  fix loop N env_step tr rnd and ls :: "('b, 'a) loop_state" and y
  assume IH: "\<And>N env_step tr rnd ls y. loop N env_step tr rnd ls = Some y \<Longrightarrow>
                0 \<le> batch_size (hyper (agent ls)) \<longrightarrow> y \<noteq> Inl SampleLargerOrNegative"
    and eq: "(if \<not> terminated ls \<and> \<not> truncated ls
                 \<and> \<not> step_count ls = max_timestep (hyper (agent ls))
              then (case loop_body N env_step tr (rnd (step_count ls)) ls of
                      Inl e \<Rightarrow> Some (Inl e)
                    | Inr ls' \<Rightarrow> loop N env_step tr rnd ls')
              else Some (Inr ls)) = Some y"
  show "0 \<le> batch_size (hyper (agent ls)) \<longrightarrow> y \<noteq> Inl SampleLargerOrNegative"
  proof (cases "\<not> terminated ls \<and> \<not> truncated ls
                 \<and> \<not> step_count ls = max_timestep (hyper (agent ls))")
    case False
    then show ?thesis using eq by auto
  next
    case True
    show ?thesis
    proof (cases "loop_body N env_step tr (rnd (step_count ls)) ls")
      case (Inl e)
      then have "y = Inl e" using eq True by simp
      then show ?thesis using Inl loop_body_Inl_sample [of ls N env_step tr] by auto
    next
      case (Inr ls')
      then have "loop N env_step tr rnd ls' = Some y" using eq True by simp
      from IH [OF this] loop_body_Inr [OF Inr] show ?thesis by simp
    qed
  qed
qed

text \<open>
  C6. The episode loop runs a Learning Step only in training mode, after the transition
  is stored, when the buffer holds more than \<open>batch_size\<close> transitions and
  \<open>step_count % policy_freq = 0\<close>: only then does \<open>total_it\<close> advance, and otherwise the
  agent is left as it is. Under that guard the buffer holds at least \<open>batch_size\<close>
  transitions when \<open>sample\<close> is called, so (for a batch size that is not negative) the
  population check of \<open>random.sample\<close> does not fail, in one iteration or in a whole
  episode.
\<close>

theorem learning_step_guard:
  "(learn_if_due N dr sc ag = Inr ag' \<longrightarrow>
      (if batch_size (hyper ag) < size_rb (replay_buffer ag) \<and> sc mod policy_freq (hyper ag) = 0
       then total_it ag' = total_it ag + 1
            \<and> (\<exists>ev. train N (sample_idxs dr) (smooth_z dr) ag = Inr (ag', ev))
       else ag' = ag))
   \<and> (learn_if_due N dr sc ag = Inl e \<longrightarrow> batch_size (hyper ag) < size_rb (replay_buffer ag))
   \<and> (batch_size (hyper ag) < size_rb (replay_buffer ag) \<longrightarrow>
        batch_size (hyper ag) \<le> size_rb (replay_buffer ag)
        \<and> (0 \<le> batch_size (hyper ag) \<longrightarrow>
              sample (replay_buffer ag) (batch_size (hyper ag)) idxs \<noteq> Inl SampleLargerOrNegative
              \<and> learn_if_due N dr sc ag \<noteq> Inl SampleLargerOrNegative))
   \<and> (0 \<le> batch_size (hyper (agent ls)) \<longrightarrow>
        loop_body N env_step tr dr ls \<noteq> Inl SampleLargerOrNegative
        \<and> episode_loop N env_step tr rnd ls \<noteq> Some (Inl SampleLargerOrNegative))"
proof -
  have a: "learn_if_due N dr sc ag = Inr ag' \<longrightarrow>
      (if batch_size (hyper ag) < size_rb (replay_buffer ag) \<and> sc mod policy_freq (hyper ag) = 0
       then total_it ag' = total_it ag + 1
            \<and> (\<exists>ev. train N (sample_idxs dr) (smooth_z dr) ag = Inr (ag', ev))
       else ag' = ag)"
    using learn_if_due_Inr [of N dr sc ag ag'] by blast
  have b: "learn_if_due N dr sc ag = Inl e \<longrightarrow> batch_size (hyper ag) < size_rb (replay_buffer ag)"
    using learn_if_due_Inl [of N dr sc ag e] by blast
  have c: "sample (replay_buffer ag) (batch_size (hyper ag)) idxs \<noteq> Inl SampleLargerOrNegative"
    if "batch_size (hyper ag) < size_rb (replay_buffer ag)" "0 \<le> batch_size (hyper ag)"
    using that by (auto simp: sample_def random_sample_def size_rb_def split: sum.splits)
  have d: "learn_if_due N dr sc ag \<noteq> Inl SampleLargerOrNegative" if "0 \<le> batch_size (hyper ag)"
    using learn_if_due_Inl [of N dr sc ag SampleLargerOrNegative] that by auto
  have e: "episode_loop N env_step tr rnd ls \<noteq> Some (Inl SampleLargerOrNegative)"
    if "0 \<le> batch_size (hyper (agent ls))"
    using episode_loop_no_sample_error [of N env_step tr rnd ls "Inl SampleLargerOrNegative"] that
    by auto
  show ?thesis
    using a b c d e loop_body_Inl_sample [of ls N env_step tr dr] by simp
qed

theorem learning_step_guard_witness:
  "learn_if_due example_networks (example_draws 0) 0 example_agent_stored = Inr example_agent_learned
   \<and> batch_size (hyper example_agent_stored) < size_rb (replay_buffer example_agent_stored)
   \<and> 0 mod policy_freq (hyper example_agent_stored) = 0
   \<and> 0 \<le> batch_size (hyper example_agent_stored)
   \<and> total_it example_agent_learned = total_it example_agent_stored + 1
   \<and> sample (replay_buffer example_agent_stored) (batch_size (hyper example_agent_stored)) [0, 1]
        \<noteq> Inl SampleLargerOrNegative
   \<and> 0 \<le> batch_size (hyper (agent (episode_start (0::nat) [0] example_agent)))
   \<and> episode_loop example_networks example_env_step True example_draws
        (episode_start 0 [0] example_agent) \<noteq> Some (Inl SampleLargerOrNegative)
   \<and> learn_if_due example_networks (example_draws 0) 0 example_agent_freq0 = Inl ZeroDivisionError
   \<and> batch_size (hyper example_agent_freq0) < size_rb (replay_buffer example_agent_freq0)"
proof -
  have g: "batch_size (hyper example_agent_stored) < size_rb (replay_buffer example_agent_stored)"
    "0 mod policy_freq (hyper example_agent_stored) = 0"
    "0 \<le> batch_size (hyper example_agent_stored)"
    by (simp_all add: example_agent_stored_def example_agent_def example_hyper_def add_def
          size_rb_def)
  have b: "0 \<le> batch_size (hyper (agent (episode_start (0::nat) [0] example_agent)))"
    by (simp add: episode_start_def example_agent_def example_hyper_def)
  note i1 = learning_step_guard [where N = example_networks and dr = "example_draws 0"
      and sc = 0 and ag = example_agent_stored and ag' = example_agent_learned
      and e = ZeroDivisionError and idxs = "[0, 1]"
      and ls = "episode_start (0::nat) [0] example_agent" and env_step = example_env_step
      and tr = True and rnd = example_draws]
  note i2 = learning_step_guard [where N = example_networks and dr = "example_draws 0"
      and sc = 0 and ag = example_agent_freq0 and ag' = example_agent_learned
      and e = ZeroDivisionError and idxs = "[0, 1]"
      and ls = "episode_start (0::nat) [0] example_agent" and env_step = example_env_step
      and tr = True and rnd = example_draws]
  have t: "total_it example_agent_learned = total_it example_agent_stored + 1"
    using i1 example_learn g by simp
  have s: "sample (replay_buffer example_agent_stored) (batch_size (hyper example_agent_stored)) [0, 1]
        \<noteq> Inl SampleLargerOrNegative"
    using i1 g by blast
  have l: "episode_loop example_networks example_env_step True example_draws
        (episode_start 0 [0] example_agent) \<noteq> Some (Inl SampleLargerOrNegative)"
    using i1 b by blast
  have z: "batch_size (hyper example_agent_freq0) < size_rb (replay_buffer example_agent_freq0)"
    using i2 example_learn_freq0 by blast
  show ?thesis
    by (intro conjI example_learn example_learn_freq0 g b t s l z)
qed

subsection \<open>When the loop ends\<close>

lemma episode_loop_terminates:
  fixes ls :: "('b, 'a) loop_state"
  shows "0 \<le> step_count ls \<Longrightarrow> step_count ls \<le> max_timestep (hyper (agent ls)) \<Longrightarrow>
         \<exists>r. episode_loop N env_step tr rnd ls = Some r"
proof (induction "nat (max_timestep (hyper (agent ls)) - step_count ls)" arbitrary: ls)
  case 0
  then have "step_count ls = max_timestep (hyper (agent ls))" by simp
  then show ?case by (subst episode_loop.simps) simp
next
  case (Suc k)
  show ?case
  proof (cases "\<not> terminated ls \<and> \<not> truncated ls
                 \<and> \<not> step_count ls = max_timestep (hyper (agent ls))")
    case False
    then show ?thesis by (subst episode_loop.simps) auto
  next
    case True
    show ?thesis
    proof (cases "loop_body N env_step tr (rnd (step_count ls)) ls")
      case (Inl e)
      then show ?thesis using True by (subst episode_loop.simps) simp
    next
      case (Inr ls')
      note b = loop_body_Inr [OF Inr]
      have "k = nat (max_timestep (hyper (agent ls')) - step_count ls')"
        using Suc.hyps(2) b by simp
      moreover have "0 \<le> step_count ls'" using Suc.prems b by simp
      moreover have "step_count ls' \<le> max_timestep (hyper (agent ls'))"
        using Suc.prems True b by simp
      ultimately have "\<exists>r. episode_loop N env_step tr rnd ls' = Some r"
        by (rule Suc.hyps(1))
      then show ?thesis using True Inr by (subst episode_loop.simps) simp
    qed
  qed
qed

lemma episode_loop_exit:
  fixes ls :: "('b, 'a) loop_state"
  assumes "episode_loop N env_step tr rnd ls = Some y"
  shows "\<forall>ls'. y = Inr ls' \<longrightarrow>
           (terminated ls' \<or> truncated ls' \<or> step_count ls' = max_timestep (hyper (agent ls')))
         \<and> hyper (agent ls') = hyper (agent ls)
         \<and> step_count ls \<le> step_count ls'
         \<and> (step_count ls \<le> max_timestep (hyper (agent ls)) \<longrightarrow>
              step_count ls' \<le> max_timestep (hyper (agent ls)))"
proof (rule episode_loop.raw_induct
    [where P = "\<lambda>N env_step tr rnd ls y. \<forall>ls'. y = Inr ls' \<longrightarrow>
           (terminated ls' \<or> truncated ls' \<or> step_count ls' = max_timestep (hyper (agent ls')))
         \<and> hyper (agent ls') = hyper (agent ls)
         \<and> step_count ls \<le> step_count ls'
         \<and> (step_count ls \<le> max_timestep (hyper (agent ls)) \<longrightarrow>
              step_count ls' \<le> max_timestep (hyper (agent ls)))",
     OF _ assms])
  fix loop N env_step tr rnd and ls :: "('b, 'a) loop_state" and y
  assume IH: "\<And>N env_step tr rnd ls y. loop N env_step tr rnd ls = Some y \<Longrightarrow>
         \<forall>ls'. y = Inr ls' \<longrightarrow>
           (terminated ls' \<or> truncated ls' \<or> step_count ls' = max_timestep (hyper (agent ls')))
         \<and> hyper (agent ls') = hyper (agent ls)
         \<and> step_count ls \<le> step_count ls'
         \<and> (step_count ls \<le> max_timestep (hyper (agent ls)) \<longrightarrow>
              step_count ls' \<le> max_timestep (hyper (agent ls)))"
    and eq: "(if \<not> terminated ls \<and> \<not> truncated ls
                 \<and> \<not> step_count ls = max_timestep (hyper (agent ls))
              then (case loop_body N env_step tr (rnd (step_count ls)) ls of
                      Inl e \<Rightarrow> Some (Inl e)
                    | Inr ls' \<Rightarrow> loop N env_step tr rnd ls')
              else Some (Inr ls)) = Some y"
  show "\<forall>ls'. y = Inr ls' \<longrightarrow>
           (terminated ls' \<or> truncated ls' \<or> step_count ls' = max_timestep (hyper (agent ls')))
         \<and> hyper (agent ls') = hyper (agent ls)
         \<and> step_count ls \<le> step_count ls'
         \<and> (step_count ls \<le> max_timestep (hyper (agent ls)) \<longrightarrow>
              step_count ls' \<le> max_timestep (hyper (agent ls)))"
  proof (cases "\<not> terminated ls \<and> \<not> truncated ls
                 \<and> \<not> step_count ls = max_timestep (hyper (agent ls))")
    case False
    then show ?thesis using eq by auto
  next
    case True
    show ?thesis
    proof (cases "loop_body N env_step tr (rnd (step_count ls)) ls")
      case (Inl e)
      then show ?thesis using eq True by auto
    next
      case (Inr ls1)
      then have "loop N env_step tr rnd ls1 = Some y" using eq True by simp
      from IH [OF this] loop_body_Inr [OF Inr] True show ?thesis by auto
    qed
  qed
qed

lemma loop_body_env:
  assumes "loop_body N env_step tr dr ls = Inr lsn"
    and "choose_action N tr (explore_z dr) (agent ls) (state ls) = Inr action"
    and "env_step (env ls) action = (e', s', rew, et, etr)"
  shows "env lsn = e' \<and> state lsn = s' \<and> episode_reward lsn = episode_reward ls + rew
    \<and> terminated lsn = (step_count ls = max_timestep (hyper (agent ls)) - 1 \<or> et)
    \<and> truncated lsn = etr"
  using assms
  by (auto simp: loop_body_def Let_def split: sum.splits)

text \<open>
  C7. The step loop of an episode stops at the first loop test at which the environment
  has signalled termination or truncation or \<open>step_count\<close> equals \<open>max_timestep\<close>, and
  not before; with \<open>max_timestep \<ge> 0\<close> it does stop, after at most \<open>max_timestep\<close>
  steps. A step takes its \<open>terminated\<close> and \<open>truncated\<close> flags from the environment's
  answer to the action it chose, so the loop ends with the step in which the environment
  signals either. In the step with index \<open>max_timestep - 1\<close> the \<open>terminated\<close> flag is
  forced to true before the transition is stored, so the stored transition is terminal.
\<close>

theorem episode_step_loop:
  fixes ls lsn ls' :: "('b, 'a) loop_state"
  shows "(0 \<le> max_timestep (hyper ag) \<longrightarrow>
            (\<exists>r. episode_loop N env_step tr rnd (episode_start e st ag) = Some r))
    \<and> (episode_loop N env_step tr rnd (episode_start e st ag) = Some (Inr ls') \<longrightarrow>
          (terminated ls' \<or> truncated ls' \<or> step_count ls' = max_timestep (hyper ag))
          \<and> (0 \<le> max_timestep (hyper ag) \<longrightarrow> step_count ls' \<le> max_timestep (hyper ag)))
    \<and> (terminated ls \<or> truncated ls \<or> step_count ls = max_timestep (hyper (agent ls)) \<longrightarrow>
          episode_loop N env_step tr rnd ls = Some (Inr ls))
    \<and> (\<not> terminated ls \<and> \<not> truncated ls \<and> step_count ls \<noteq> max_timestep (hyper (agent ls)) \<longrightarrow>
          episode_loop N env_step tr rnd ls
            = (case loop_body N env_step tr (rnd (step_count ls)) ls of
                 Inl err \<Rightarrow> Some (Inl err)
               | Inr ls2 \<Rightarrow> episode_loop N env_step tr rnd ls2))
    \<and> (loop_body N env_step True dr ls = Inr lsn
         \<and> step_count ls = max_timestep (hyper (agent ls)) - 1 \<longrightarrow>
          terminated lsn \<and> step_count lsn = max_timestep (hyper (agent ls))
          \<and> (0 < maxlen (replay_buffer (agent ls)) \<longrightarrow>
                buffer (replay_buffer (agent lsn)) \<noteq> []
                \<and> (\<exists>a r. last (buffer (replay_buffer (agent lsn)))
                            = (state ls, a, r, state lsn, True))))
    \<and> (loop_body N env_step tr dr ls = Inr lsn
         \<and> choose_action N tr (explore_z dr) (agent ls) (state ls) = Inr action
         \<and> env_step (env ls) action = (e', s', rew, et, etr) \<longrightarrow>
          env lsn = e' \<and> state lsn = s' \<and> episode_reward lsn = episode_reward ls + rew
          \<and> terminated lsn = (step_count ls = max_timestep (hyper (agent ls)) - 1 \<or> et)
          \<and> truncated lsn = etr)
    \<and> (\<not> terminated ls \<and> \<not> truncated ls \<and> step_count ls \<noteq> max_timestep (hyper (agent ls))
         \<and> loop_body N env_step tr (rnd (step_count ls)) ls = Inr lsn
         \<and> choose_action N tr (explore_z (rnd (step_count ls))) (agent ls) (state ls) = Inr action
         \<and> env_step (env ls) action = (e', s', rew, et, etr) \<and> (et \<or> etr) \<longrightarrow>
          episode_loop N env_step tr rnd ls = Some (Inr lsn)
          \<and> (terminated lsn \<or> truncated lsn))"
proof -
  let ?s = "episode_start e st ag :: ('b, 'a) loop_state"
  have s0: "step_count ?s = 0" "hyper (agent ?s) = hyper ag"
    by (simp_all add: episode_start_def)
  have a: "\<exists>r. episode_loop N env_step tr rnd ?s = Some r" if "0 \<le> max_timestep (hyper ag)"
    using episode_loop_terminates [of ?s N env_step tr rnd] that s0 by simp
  have b: "(terminated ls' \<or> truncated ls' \<or> step_count ls' = max_timestep (hyper ag))
          \<and> (0 \<le> max_timestep (hyper ag) \<longrightarrow> step_count ls' \<le> max_timestep (hyper ag))"
    if "episode_loop N env_step tr rnd ?s = Some (Inr ls')"
    using episode_loop_exit [OF that] s0 by auto
  have c: "episode_loop N env_step tr rnd ls = Some (Inr ls)"
    if "terminated ls \<or> truncated ls \<or> step_count ls = max_timestep (hyper (agent ls))"
    using that by (subst episode_loop.simps) auto
  have d: "episode_loop N env_step tr rnd ls
            = (case loop_body N env_step tr (rnd (step_count ls)) ls of
                 Inl err \<Rightarrow> Some (Inl err)
               | Inr ls2 \<Rightarrow> episode_loop N env_step tr rnd ls2)"
    if "\<not> terminated ls \<and> \<not> truncated ls \<and> step_count ls \<noteq> max_timestep (hyper (agent ls))"
    using that by (subst episode_loop.simps) simp
  have f: "terminated lsn \<and> step_count lsn = max_timestep (hyper (agent ls))
          \<and> (0 < maxlen (replay_buffer (agent ls)) \<longrightarrow>
                buffer (replay_buffer (agent lsn)) \<noteq> []
                \<and> (\<exists>a r. last (buffer (replay_buffer (agent lsn)))
                            = (state ls, a, r, state lsn, True)))"
    if lb: "loop_body N env_step True dr ls = Inr lsn"
      and last: "step_count ls = max_timestep (hyper (agent ls)) - 1"
  proof -
    from loop_body_Inr [OF lb] last
    have t: "terminated lsn" "step_count lsn = max_timestep (hyper (agent ls))" by simp_all
    show ?thesis
      using t loop_body_stores [OF lb] by auto
  qed
  have g: "env lsn = e' \<and> state lsn = s' \<and> episode_reward lsn = episode_reward ls + rew
          \<and> terminated lsn = (step_count ls = max_timestep (hyper (agent ls)) - 1 \<or> et)
          \<and> truncated lsn = etr"
    if "loop_body N env_step tr dr ls = Inr lsn"
      "choose_action N tr (explore_z dr) (agent ls) (state ls) = Inr action"
      "env_step (env ls) action = (e', s', rew, et, etr)"
    using that by (rule loop_body_env)
  have h: "episode_loop N env_step tr rnd ls = Some (Inr lsn) \<and> (terminated lsn \<or> truncated lsn)"
    if go: "\<not> terminated ls \<and> \<not> truncated ls \<and> step_count ls \<noteq> max_timestep (hyper (agent ls))"
      and lb: "loop_body N env_step tr (rnd (step_count ls)) ls = Inr lsn"
      and ch: "choose_action N tr (explore_z (rnd (step_count ls))) (agent ls) (state ls) = Inr action"
      and en: "env_step (env ls) action = (e', s', rew, et, etr)"
      and sg: "et \<or> etr"
  proof -
    from loop_body_env [OF lb ch en] sg have stop: "terminated lsn \<or> truncated lsn" by auto
    have "episode_loop N env_step tr rnd ls = episode_loop N env_step tr rnd lsn"
      using go lb by (subst episode_loop.simps) simp
    also have "\<dots> = Some (Inr lsn)"
      using stop by (subst episode_loop.simps) auto
    finally show ?thesis using stop by simp
  qed
  show ?thesis
    using a b c d f g h by blast
qed

theorem episode_step_loop_witness:
  "0 \<le> max_timestep (hyper example_agent)
   \<and> episode_loop example_networks example_env_step True example_draws
        (episode_start 0 [0] example_agent) = Some (Inr example_final)
   \<and> step_count example_final = max_timestep (hyper example_agent)
   \<and> step_count example_final \<le> max_timestep (hyper example_agent)
   \<and> terminated example_final
   \<and> episode_loop example_networks example_env_step True example_draws example_final
        = Some (Inr example_final)
   \<and> loop_body example_networks example_env_step True (example_draws 2) example_before_last
        = Inr example_final
   \<and> step_count example_before_last = max_timestep (hyper (agent example_before_last)) - 1
   \<and> 0 < maxlen (replay_buffer (agent example_before_last))
   \<and> (\<exists>a r. last (buffer (replay_buffer (agent example_final)))
              = (state example_before_last, a, r, state example_final, True))
   \<and> example_env_terminating (env (episode_start (0::nat) [0] example_agent)) [1 / 5]
       = (1, [0], 1, True, False)
   \<and> episode_loop example_networks example_env_terminating True example_draws
        (episode_start 0 [0] example_agent) = Some (Inr example_terminated)
   \<and> terminated example_terminated
   \<and> step_count example_terminated < max_timestep (hyper (agent example_terminated))
   \<and> example_env_truncating (env (episode_start (0::nat) [0] example_agent)) [1 / 5]
       = (1, [0], 1, False, True)
   \<and> episode_loop example_networks example_env_truncating True example_draws
        (episode_start 0 [0] example_agent) = Some (Inr example_truncated)
   \<and> truncated example_truncated \<and> \<not> terminated example_truncated
   \<and> step_count example_truncated < max_timestep (hyper (agent example_truncated))"
proof -
  let ?start = "episode_start (0::nat) [0] example_agent :: (nat, unit) loop_state"
  have go: "\<not> terminated ?start \<and> \<not> truncated ?start
      \<and> step_count ?start \<noteq> max_timestep (hyper (agent ?start))"
    by (simp add: episode_start_def example_agent_def example_hyper_def)
  have dr0: "example_draws (step_count ?start) = example_draws 0"
    by (simp add: example_draws_def)
  have e1: "example_env_terminating (env ?start) [1 / 5] = (1, [0], 1, True, False)"
    and e2: "example_env_truncating (env ?start) [1 / 5] = (1, [0], 1, False, True)"
    by (simp_all add: example_env_terminating_def example_env_truncating_def episode_start_def)
  have l1: "loop_body example_networks example_env_terminating True
              (example_draws (step_count ?start)) ?start = Inr example_terminated"
    and l2: "loop_body example_networks example_env_truncating True
              (example_draws (step_count ?start)) ?start = Inr example_truncated"
    and ch: "choose_action example_networks True (explore_z (example_draws (step_count ?start)))
               (agent ?start) (state ?start) = Inr [1 / 5]"
    unfolding dr0
    by (rule example_step_terminating, rule example_step_truncating, rule example_first_action)
  note inst3 = episode_step_loop [where N = example_networks
      and env_step = example_env_terminating and tr = True and rnd = example_draws
      and ls = ?start and lsn = example_terminated and action = "[1 / 5]"
      and e' = 1 and s' = "[0]" and rew = 1 and et = True and etr = False]
  note inst4 = episode_step_loop [where N = example_networks
      and env_step = example_env_truncating and tr = True and rnd = example_draws
      and ls = ?start and lsn = example_truncated and action = "[1 / 5]"
      and e' = 1 and s' = "[0]" and rew = 1 and et = False and etr = True]
  have end1: "episode_loop example_networks example_env_terminating True example_draws ?start
                = Some (Inr example_terminated)"
    using inst3 go l1 ch e1 by blast
  have end2: "episode_loop example_networks example_env_truncating True example_draws ?start
                = Some (Inr example_truncated)"
    using inst4 go l2 ch e2 by blast
  have fl: "terminated example_terminated"
    "step_count example_terminated < max_timestep (hyper (agent example_terminated))"
    "truncated example_truncated \<and> \<not> terminated example_truncated"
    "step_count example_truncated < max_timestep (hyper (agent example_truncated))"
    by (simp_all add: example_terminated_def example_truncated_def example_agent_def
          example_hyper_def)
  have h: "0 \<le> max_timestep (hyper example_agent)"
    by (simp add: example_agent_def example_hyper_def)
  have t: "terminated example_final" "step_count example_final = max_timestep (hyper example_agent)"
    by (simp_all add: example_final_def example_agent_def example_hyper_def)
  have p: "step_count example_before_last = max_timestep (hyper (agent example_before_last)) - 1"
    "0 < maxlen (replay_buffer (agent example_before_last))"
    by (simp_all add: example_before_last_def example_agent_def example_hyper_def)
  note inst = episode_step_loop [where ag = example_agent and N = example_networks
      and env_step = example_env_step and tr = True and rnd = example_draws
      and e = "0::nat" and st = "[0]" and ls' = example_final and ls = example_final]
  note inst2 = episode_step_loop [where ag = example_agent and N = example_networks
      and env_step = example_env_step and tr = True and rnd = example_draws
      and e = "0::nat" and st = "[0]" and ls' = example_final and ls = example_before_last
      and lsn = example_final and dr = "example_draws 2"]
  have le: "step_count example_final \<le> max_timestep (hyper example_agent)"
    using inst example_episode h by blast
  have stop: "episode_loop example_networks example_env_step True example_draws example_final
        = Some (Inr example_final)"
    using inst t(1) by blast
  have stored: "\<exists>a r. last (buffer (replay_buffer (agent example_final)))
              = (state example_before_last, a, r, state example_final, True)"
    using inst2 example_last_step p by blast
  show ?thesis
    using fl
    by (intro conjI h example_episode t le stop example_last_step p stored e1 e2 end1 end2)
      simp_all
qed

section \<open>The end of an episode\<close>

lemma graph_update_frame:
  "best_reward (fst (graph_update clk bk)) = best_reward bk
   \<and> best_average_reward (fst (graph_update clk bk)) = best_average_reward bk
   \<and> rewards_per_episode (fst (graph_update clk bk)) = rewards_per_episode bk
   \<and> Save \<notin> set (snd (graph_update clk bk))"
  by (simp add: graph_update_def)

lemma average_report_frame:
  "best_reward (fst (average_report F clk episode bk)) = best_reward bk
   \<and> rewards_per_episode (fst (average_report F clk episode bk)) = rewards_per_episode bk
   \<and> (Save \<in> set (snd (average_report F clk episode bk))
        \<longleftrightarrow> (episode + 1) mod 100 = 0
            \<and> exceeds (mean (last_100 (rewards_per_episode bk))) (best_average_reward bk))"
  by (simp add: average_report_def Let_def)

lemma saving_suffix: "suffix ''saving model...'' (xs @ '', saving model...'')"
proof -
  have "xs @ '', saving model...'' = (xs @ '', '') @ ''saving model...''" by simp
  then show ?thesis unfolding suffix_def by blast
qed

lemma best_reward_report_Inr:
  assumes "best_reward_report F clk episode r bk evs0 = Inr (bk', evs)"
  shows "if exceeds r (best_reward bk) \<and> 0 < episode
         then r \<noteq> 0 \<and> bk' = bk\<lparr>best_reward := Fin r\<rparr>
              \<and> evs = evs0 @ [Print (best_reward_message F (stamp_best clk) r 0 episode)]
         else bk' = bk \<and> evs = evs0"
  using assms by (auto simp: best_reward_report_def Let_def split: if_splits)

lemma best_reward_report_Inl:
  assumes "best_reward_report F clk episode r bk evs0 = Inl (err, evs)"
  shows "evs = evs0 \<and> err = ZeroDivisionError \<and> r = 0 \<and> exceeds r (best_reward bk) \<and> 0 < episode"
  using assms by (auto simp: best_reward_report_def Let_def split: if_splits)

lemma episode_end_training:
  "episode_end F True clk episode r bk
     = best_reward_report F clk episode r
         (fst (average_report F clk episode
                 (fst (graph_update clk (bk\<lparr>rewards_per_episode := rewards_per_episode bk @ [r]\<rparr>)))))
         (snd (graph_update clk (bk\<lparr>rewards_per_episode := rewards_per_episode bk @ [r]\<rparr>))
          @ snd (average_report F clk episode
                   (fst (graph_update clk (bk\<lparr>rewards_per_episode := rewards_per_episode bk @ [r]\<rparr>)))))"
  by (simp add: episode_end_def Let_def split_def)

lemma episode_end_save:
  assumes "episode_end F tr clk episode r bk = Inr (bk', evs)
           \<or> episode_end F tr clk episode r bk = Inl (err, evs)"
  shows "Save \<in> set evs \<longleftrightarrow>
           tr \<and> (episode + 1) mod 100 = 0
           \<and> exceeds (mean (last_100 (rewards_per_episode bk @ [r]))) (best_average_reward bk)"
proof (cases tr)
  case False
  then show ?thesis using assms by (auto simp: episode_end_def Let_def)
next
  case True
  let ?bk1 = "bk\<lparr>rewards_per_episode := rewards_per_episode bk @ [r]\<rparr>"
  let ?g = "graph_update clk ?bk1"
  let ?a = "average_report F clk episode (fst ?g)"
  have pre: "Save \<in> set (snd ?g @ snd ?a) \<longleftrightarrow>
           (episode + 1) mod 100 = 0
           \<and> exceeds (mean (last_100 (rewards_per_episode bk @ [r]))) (best_average_reward bk)"
    using graph_update_frame [of clk ?bk1] average_report_frame [of F clk episode "fst ?g"]
    by simp
  from assms True have "best_reward_report F clk episode r (fst ?a) (snd ?g @ snd ?a) = Inr (bk', evs)
      \<or> best_reward_report F clk episode r (fst ?a) (snd ?g @ snd ?a) = Inl (err, evs)"
    by (simp add: episode_end_training)
  then have "Save \<in> set evs \<longleftrightarrow> Save \<in> set (snd ?g @ snd ?a)"
    using best_reward_report_Inr [of F clk episode r "fst ?a" "snd ?g @ snd ?a" bk' evs]
      best_reward_report_Inl [of F clk episode r "fst ?a" "snd ?g @ snd ?a" err evs]
    by (auto split: if_splits)
  then show ?thesis using pre True by simp
qed

text \<open>
  C9. In the new-best-reward branch \<open>best_reward\<close> is overwritten with the episode reward
  before the message is formatted, so for an episode reward other than zero the
  numerator \<open>episode_reward - best_reward\<close> is zero and the line is printed with a
  percentage of zero, whatever the previous best was.
\<close>

theorem best_reward_percentage_zero:
  assumes "exceeds r (best_reward bk)" and "0 < episode" and "r \<noteq> 0"
  shows "best_reward_report F clk episode r bk evs0
           = Inr (bk\<lparr>best_reward := Fin r\<rparr>,
                  evs0 @ [Print (best_reward_message F (stamp_best clk) r 0 episode)])
    \<and> (\<exists>bk' evs. episode_end F True clk episode r bk
                    = Inr (bk', evs @ [Print (best_reward_message F (stamp_best clk) r 0 episode)])
                  \<and> best_reward bk' = Fin r)"
proof -
  have a: "best_reward_report F clk episode r b evs1
           = Inr (b\<lparr>best_reward := Fin r\<rparr>,
                  evs1 @ [Print (best_reward_message F (stamp_best clk) r 0 episode)])"
    if "best_reward b = best_reward bk" for b evs1
    using assms that by (simp add: best_reward_report_def Let_def)
  let ?bk1 = "bk\<lparr>rewards_per_episode := rewards_per_episode bk @ [r]\<rparr>"
  let ?g = "graph_update clk ?bk1"
  let ?a = "average_report F clk episode (fst ?g)"
  have "best_reward (fst ?a) = best_reward bk"
    using graph_update_frame [of clk ?bk1] average_report_frame [of F clk episode "fst ?g"]
    by simp
  from a [OF this, of "snd ?g @ snd ?a"]
  have "episode_end F True clk episode r bk
          = Inr ((fst ?a)\<lparr>best_reward := Fin r\<rparr>,
                 (snd ?g @ snd ?a) @ [Print (best_reward_message F (stamp_best clk) r 0 episode)])"
    by (simp only: episode_end_training)
  then have "\<exists>bk' evs. episode_end F True clk episode r bk
                    = Inr (bk', evs @ [Print (best_reward_message F (stamp_best clk) r 0 episode)])
                  \<and> best_reward bk' = Fin r"
    by (intro exI [of _ "(fst ?a)\<lparr>best_reward := Fin r\<rparr>"] exI [of _ "snd ?g @ snd ?a"]) simp
  with a [of bk evs0] show ?thesis by simp
qed

theorem best_reward_percentage_zero_witness:
  "exceeds 3 (best_reward example_book) \<and> (0::int) < 1 \<and> (3::real) \<noteq> 0
   \<and> best_reward_report example_formats example_clock 1 3 example_book []
       = Inr (example_book\<lparr>best_reward := Fin 3\<rparr>,
              [] @ [Print (best_reward_message example_formats (stamp_best example_clock) 3 0 1)])
   \<and> (\<exists>bk' evs. episode_end example_formats True example_clock 1 3 example_book
                    = Inr (bk', evs @ [Print (best_reward_message example_formats
                                               (stamp_best example_clock) 3 0 1)])
                  \<and> best_reward bk' = Fin 3)"
proof -
  have h: "exceeds 3 (best_reward example_book)" "(0::int) < 1" "(3::real) \<noteq> 0"
    by (simp_all add: example_book_def run_start_def)
  from best_reward_percentage_zero [OF h, of example_formats example_clock "[]"] h
  show ?thesis by blast
qed

text \<open>
  C10. At the end of an episode the checkpoint is saved exactly when the run is training,
  the episode number plus one is a multiple of 100 and the mean of the last hundred
  returns exceeds the best average so far. The new-best-reward branch sets
  \<open>best_reward\<close>, changes nothing else and adds one printed line, which ends in
  \<open>saving model...\<close>; it does not save.
\<close>

theorem checkpoint_only_every_hundred:
  "(episode_end F tr clk episode r bk = Inr (bk', evs)
      \<or> episode_end F tr clk episode r bk = Inl (err, evs) \<longrightarrow>
      (Save \<in> set evs \<longleftrightarrow>
         tr \<and> (episode + 1) mod 100 = 0
         \<and> exceeds (mean (last_100 (rewards_per_episode bk @ [r]))) (best_average_reward bk)))
   \<and> (exceeds r (best_reward bk) \<and> 0 < episode
        \<and> best_reward_report F clk episode r bk evsa = Inr (bkb, evsb) \<longrightarrow>
        bkb = bk\<lparr>best_reward := Fin r\<rparr>
        \<and> (\<exists>m. evsb = evsa @ [Print m] \<and> suffix ''saving model...'' m))"
proof -
  have "bkb = bk\<lparr>best_reward := Fin r\<rparr>
        \<and> (\<exists>m. evsb = evsa @ [Print m] \<and> suffix ''saving model...'' m)"
    if "exceeds r (best_reward bk)" "0 < episode"
      "best_reward_report F clk episode r bk evsa = Inr (bkb, evsb)"
  proof -
    from best_reward_report_Inr [OF that(3)] that(1,2)
    have "bkb = bk\<lparr>best_reward := Fin r\<rparr>"
      and e: "evsb = evsa @ [Print (best_reward_message F (stamp_best clk) r 0 episode)]"
      by simp_all
    moreover have "suffix ''saving model...'' (best_reward_message F (stamp_best clk) r 0 episode)"
      unfolding best_reward_message_def
      by (simp only: append_assoc [symmetric] saving_suffix)
    ultimately show ?thesis by blast
  qed
  then show ?thesis
    using episode_end_save [of F tr clk episode r bk bk' evs err] by blast
qed

theorem checkpoint_only_every_hundred_witness:
  "episode_end example_formats True example_clock 99 3 example_book
     = Inr (example_book\<lparr>rewards_per_episode := [3], best_average_reward := Fin 3,
                          best_reward := Fin 3\<rparr>, example_events)
   \<and> Save \<in> set example_events
   \<and> (99 + 1) mod 100 = (0::int)
   \<and> exceeds (mean (last_100 (rewards_per_episode example_book @ [3])))
        (best_average_reward example_book)
   \<and> exceeds 3 (best_reward example_book) \<and> (0::int) < 1
   \<and> best_reward_report example_formats example_clock 1 3 example_book []
       = Inr (example_book\<lparr>best_reward := Fin 3\<rparr>,
              [Print (best_reward_message example_formats (stamp_best example_clock) 3 0 1)])
   \<and> suffix ''saving model...''
        (best_reward_message example_formats (stamp_best example_clock) 3 0 1)"
proof -
  have h: "exceeds 3 (best_reward example_book)" "(0::int) < 1"
    by (simp_all add: example_book_def run_start_def)
  have sv: "Save \<in> set example_events" by (simp add: example_events_def)
  note inst = checkpoint_only_every_hundred [where F = example_formats and tr = True
      and clk = example_clock and episode = 99 and r = 3 and bk = example_book
      and bk' = "example_book\<lparr>rewards_per_episode := [3], best_average_reward := Fin 3,
                          best_reward := Fin 3\<rparr>"
      and evs = example_events and err = ZeroDivisionError]
  note inst2 = checkpoint_only_every_hundred [where F = example_formats and tr = True
      and clk = example_clock and episode = 1 and r = 3 and bk = example_book
      and evsa = "[]" and bkb = "example_book\<lparr>best_reward := Fin 3\<rparr>"
      and evsb = "[Print (best_reward_message example_formats (stamp_best example_clock) 3 0 1)]"]
  have c: "(99 + 1) mod 100 = (0::int)
     \<and> exceeds (mean (last_100 (rewards_per_episode example_book @ [3])))
          (best_average_reward example_book)"
    using inst example_episode_end sv by blast
  have "\<exists>m. [Print (best_reward_message example_formats (stamp_best example_clock) 3 0 1)]
               = [] @ [Print m] \<and> suffix ''saving model...'' m"
    using inst2 example_best_report h by blast
  then have sf: "suffix ''saving model...''
        (best_reward_message example_formats (stamp_best example_clock) 3 0 1)"
    by simp
  show ?thesis
    using example_episode_end sv c h example_best_report sf by (intro conjI) simp_all
qed

end
